theory Spec2Isabelle
  imports Complex_Main "HOL-Library.Word"
begin

section \<open>Temporal-consistency frame smoothing of Project Aura\<close>

text \<open>
  The development embeds the smoothing functions of
  \<^verbatim>\<open>backend/app/services/ai/diffusion_service.py\<close> (class DiffusionService) and
  \<^verbatim>\<open>backend/app/services/video/video_processor.py\<close> (class VideoProcessor).

  A frame is a numpy array of shape height x width x channels with dtype uint8. It is
  modelled as a nested list (rows of pixels of channel samples) of 8-bit words; arrays of
  other rank, and arrays without pixels but with channels, have no counterpart. Python
  integers are \<open>int\<close>.

  The float32/float64 arithmetic of numpy is idealised: floating-point values are real
  numbers and every operation is exact. NaN, infinities and the rounding of the
  floating-point unit are outside the model, so a statement about the integer part of a
  computed value is a statement about the exact value. One consequence is visible in the
  enhanced mode: the summand 1e-8 of the colour ratio is kept by the model, whereas float32
  absorbs it next to a mean of ordinary size.
\<close>

subsection \<open>Arrays, errors and Python sequence operations\<close>

type_synonym 'a ndarray = "'a list list list"
type_synonym frame = "8 word ndarray"
type_synonym float_frame = "real ndarray"

datatype py_error = IndexError | ValueError

text \<open>The shape of a three-dimensional array, read off its first row and first pixel.\<close>

definition shape :: "'a ndarray \<Rightarrow> nat \<times> nat \<times> nat" where
  "shape a =
     (length a,
      (case a of [] \<Rightarrow> 0 | r # _ \<Rightarrow> length r),
      (case a of [] \<Rightarrow> 0 | r # _ \<Rightarrow> (case r of [] \<Rightarrow> 0 | p # _ \<Rightarrow> length p)))"

text \<open>
  A nested list stands for an array only when it is rectangular; \<open>is_ndarray h w c a\<close>
  says that \<open>a\<close> is a rectangular array of shape \<open>(h, w, c)\<close>.
\<close>

definition is_ndarray :: "nat \<Rightarrow> nat \<Rightarrow> nat \<Rightarrow> 'a ndarray \<Rightarrow> bool" where
  "is_ndarray h w c a \<longleftrightarrow>
     length a = h \<and> list_all (\<lambda>r. length r = w \<and> list_all (\<lambda>p. length p = c) r) a"

text \<open>
  Python's \<^verbatim>\<open>xs[a:b]\<close>: a negative bound counts from the end, and both bounds are
  clamped to the list; the slice never raises.
\<close>

definition slice_bound :: "int \<Rightarrow> int \<Rightarrow> nat" where
  "slice_bound n i = nat (if i < 0 then max 0 (i + n) else min i n)"

definition py_slice :: "'a list \<Rightarrow> int \<Rightarrow> int \<Rightarrow> 'a list" where
  "py_slice xs a b =
     (let n = int (length xs); lo = slice_bound n a; hi = slice_bound n b
      in take (hi - lo) (drop lo xs))"

text \<open>
  Subscription \<^verbatim>\<open>xs[i]\<close> of a Python sequence: indices \<open>-len(xs), ..., -1\<close> address
  the elements from the end, any index outside \<open>-len(xs), ..., len(xs) - 1\<close> raises IndexError.
\<close>

definition py_get :: "'a list \<Rightarrow> int \<Rightarrow> py_error + 'a" where
  "py_get xs i =
     (if 0 \<le> i \<and> i < int (length xs) then Inr (xs ! nat i)
      else if i < 0 \<and> - int (length xs) \<le> i then Inr (xs ! nat (int (length xs) + i))
      else Inl IndexError)"

text \<open>
  A \<^verbatim>\<open>for\<close> loop that appends one result per element; the first exception
  leaves the loop.
\<close>

fun for_each :: "('a \<Rightarrow> py_error + 'b) \<Rightarrow> 'a list \<Rightarrow> py_error + 'b list" where
  "for_each f [] = Inr []"
| "for_each f (x # xs) =
     (case f x of
        Inl e \<Rightarrow> Inl e
      | Inr y \<Rightarrow> (case for_each f xs of Inl e \<Rightarrow> Inl e | Inr ys \<Rightarrow> Inr (y # ys)))"

subsection \<open>The numpy operations used by the smoother\<close>

definition astype_float32 :: "frame \<Rightarrow> float_frame" where
  "astype_float32 a = map (map (map (\<lambda>s. real (unat s)))) a"

text \<open>The cast of a float to uint8 drops the fraction (rounding toward zero).\<close>

definition trunc :: "real \<Rightarrow> int" where
  "trunc x = (if 0 \<le> x then \<lfloor>x\<rfloor> else \<lceil>x\<rceil>)"

definition astype_uint8 :: "float_frame \<Rightarrow> frame" where
  "astype_uint8 a = map (map (map (\<lambda>x. (word_of_int (trunc x) :: 8 word)))) a"

definition clip1 :: "real \<Rightarrow> real \<Rightarrow> real \<Rightarrow> real" where
  "clip1 lo hi x = min (max x lo) hi"

definition np_clip :: "float_frame \<Rightarrow> real \<Rightarrow> real \<Rightarrow> float_frame" where
  "np_clip a lo hi = map (map (map (clip1 lo hi))) a"

definition zeros_like :: "float_frame \<Rightarrow> float_frame" where
  "zeros_like a = map (map (map (\<lambda>_. 0))) a"

definition scale :: "real \<Rightarrow> float_frame \<Rightarrow> float_frame" where
  "scale k a = map (map (map (\<lambda>x. k * x))) a"

text \<open>
  Broadcasting of an operand into an output of fixed shape: an operand dimension must
  equal the output dimension or be 1, in which case the single entry is repeated.
\<close>

definition fits :: "nat \<Rightarrow> nat \<Rightarrow> bool" where
  "fits d D \<longleftrightarrow> d = D \<or> d = 1"

definition stretch :: "nat \<Rightarrow> 'a list \<Rightarrow> 'a list" where
  "stretch n xs = (if length xs = n then xs else replicate n (xs ! 0))"

definition add_broadcast :: "float_frame \<Rightarrow> float_frame \<Rightarrow> float_frame" where
  "add_broadcast s t =
     (case shape s of (H, W, C) \<Rightarrow>
        map2 (\<lambda>rs rt. map2 (\<lambda>ps pt. map2 (+) ps (stretch C pt)) rs (stretch W rt))
          s (stretch H t))"

text \<open>
  \<^verbatim>\<open>smoothed += t\<close>: the in-place addition keeps the shape of \<open>smoothed\<close>; an operand
  that cannot be broadcast to that shape raises ValueError.
\<close>

definition iadd :: "float_frame \<Rightarrow> float_frame \<Rightarrow> py_error + float_frame" where
  "iadd s t =
     (case shape s of (H, W, C) \<Rightarrow>
      case shape t of (h, w, c) \<Rightarrow>
        if fits h H \<and> fits w W \<and> fits c C then Inr (add_broadcast s t) else Inl ValueError)"

text \<open>
  \<^verbatim>\<open>np.exp(-decay * np.square(np.arange(n) - center_idx))\<close> followed by
  \<^verbatim>\<open>weights / np.sum(weights)\<close>.
\<close>

definition raw_weights :: "real \<Rightarrow> nat \<Rightarrow> int \<Rightarrow> real list" where
  "raw_weights decay n center_idx =
     map (\<lambda>k. exp (- decay * (real_of_int (int k - center_idx))\<^sup>2)) [0..<n]"

definition weights :: "real \<Rightarrow> nat \<Rightarrow> int \<Rightarrow> real list" where
  "weights decay n center_idx =
     (let ws = raw_weights decay n center_idx in map (\<lambda>x. x / sum_list ws) ws)"

text \<open>
  The accumulation loop \<^verbatim>\<open>for i, frame in enumerate(float_frames): smoothed += weights[i] * frame\<close>.
\<close>

fun accumulate :: "float_frame \<Rightarrow> (real \<times> float_frame) list \<Rightarrow> py_error + float_frame" where
  "accumulate smoothed [] = Inr smoothed"
| "accumulate smoothed ((wt, frame) # rest) =
     (case iadd smoothed (scale wt frame) of
        Inl e \<Rightarrow> Inl e
      | Inr smoothed' \<Rightarrow> accumulate smoothed' rest)"

text \<open>
  The weighted average shared by the smoothing functions:
  \<^verbatim>\<open>smoothed = np.zeros_like(float_frames[0])\<close> raises IndexError on an empty window.
\<close>

definition weighted_average :: "real \<Rightarrow> float_frame list \<Rightarrow> int \<Rightarrow> py_error + float_frame" where
  "weighted_average decay float_frames center_idx =
     (case float_frames of
        [] \<Rightarrow> Inl IndexError
      | f0 # _ \<Rightarrow>
          accumulate (zeros_like f0)
            (zip (weights decay (length float_frames) center_idx) float_frames))"

text \<open>Sequencing of computations that may raise.\<close>

definition and_then :: "py_error + 'a \<Rightarrow> ('a \<Rightarrow> py_error + 'b) \<Rightarrow> py_error + 'b" where
  "and_then m f = (case m of Inl e \<Rightarrow> Inl e | Inr x \<Rightarrow> f x)"

text \<open>
  \<^verbatim>\<open>np.mean(a, axis=(0, 1))\<close>: one mean per channel, over all pixel positions. (For an
  array without pixels numpy returns NaN; such an array is not a frame and has no
  counterpart here.)
\<close>

definition mean01 :: "float_frame \<Rightarrow> real list" where
  "mean01 a =
     (case shape a of (H, W, C) \<Rightarrow>
        map (\<lambda>k. (\<Sum>r\<leftarrow>a. \<Sum>p\<leftarrow>r. p ! k) / real (H * W)) [0..<C])"

text \<open>
  Broadcasting of two one-dimensional operands: equal lengths, or one of them of
  length 1; anything else raises ValueError.
\<close>

definition compatible :: "nat \<Rightarrow> nat \<Rightarrow> bool" where
  "compatible m n \<longleftrightarrow> m = n \<or> n = 1 \<or> m = 1"

definition bzip :: "('a \<Rightarrow> 'b \<Rightarrow> 'c) \<Rightarrow> 'a list \<Rightarrow> 'b list \<Rightarrow> 'c list" where
  "bzip f xs ys =
     (if length xs = length ys then map2 f xs ys
      else if length ys = 1 then map (\<lambda>x. f x (ys ! 0)) xs
      else map (\<lambda>y. f (xs ! 0) y) ys)"

definition broadcast2 :: "('a \<Rightarrow> 'b \<Rightarrow> 'c) \<Rightarrow> 'a list \<Rightarrow> 'b list \<Rightarrow> py_error + 'c list" where
  "broadcast2 f xs ys =
     (if compatible (length xs) (length ys) then Inr (bzip f xs ys) else Inl ValueError)"

text \<open>\<^verbatim>\<open>a * v\<close> for an array \<open>a\<close> and a vector \<open>v\<close>: \<open>v\<close> is broadcast along the last axis.\<close>

definition mul_channels :: "float_frame \<Rightarrow> real list \<Rightarrow> py_error + float_frame" where
  "mul_channels a v =
     (case shape a of (H, W, C) \<Rightarrow>
        if compatible C (length v) then Inr (map (map (\<lambda>p. bzip (*) p v)) a)
        else Inl ValueError)"

subsection \<open>The window of an output index\<close>

definition start_idx :: "int \<Rightarrow> int \<Rightarrow> int" where
  "start_idx i window_size = max 0 (i - window_size div 2)"

definition end_idx :: "int \<Rightarrow> int \<Rightarrow> int \<Rightarrow> int" where
  "end_idx n i window_size = min n (i + window_size div 2 + 1)"

definition window_of :: "'a list \<Rightarrow> int \<Rightarrow> int \<Rightarrow> 'a list" where
  "window_of frames window_size i =
     py_slice frames (start_idx i window_size) (end_idx (int (length frames)) i window_size)"

subsection \<open>VideoProcessor\<close>

definition vp_temporal_smooth :: "frame list \<Rightarrow> int \<Rightarrow> py_error + frame" where
  "vp_temporal_smooth window_frames center_idx =
     (if length window_frames = 1 then Inr (window_frames ! 0)
      else
        (let float_frames = map astype_float32 window_frames
         in and_then (weighted_average (1/2) float_frames center_idx) (\<lambda>smoothed.
            Inr (astype_uint8 (np_clip smoothed 0 255)))))"

text \<open>
  The body of every smoothing entry point is wrapped in \<^verbatim>\<open>try ... except Exception\<close>,
  whose handler logs and returns \<open>frames\<close>; the result type keeps the error alternative
  so that "the call fails" can be stated.
\<close>

definition vp_apply_temporal_consistency :: "frame list \<Rightarrow> int \<Rightarrow> py_error + frame list" where
  "vp_apply_temporal_consistency frames window_size =
     (if int (length frames) < window_size then Inr frames
      else
        (case for_each
                (\<lambda>i. vp_temporal_smooth (window_of frames window_size (int i))
                        (int i - start_idx (int i) window_size))
                [0..<length frames] of
           Inl e \<Rightarrow> Inr frames
         | Inr consistent_frames \<Rightarrow> Inr consistent_frames))"

subsection \<open>DiffusionService\<close>

text \<open>
  The first two statements of \<^verbatim>\<open>_apply_color_consistency\<close> after the means: the
  per-channel ratio and its clipping to [0.8, 1.2].
\<close>

definition color_ratio :: "float_frame \<Rightarrow> float_frame \<Rightarrow> py_error + real list" where
  "color_ratio smoothed_frame center_frame =
     (let smoothed_mean = mean01 smoothed_frame;
          center_mean = mean01 center_frame
      in and_then (broadcast2 (\<lambda>c s. c / (s + 1 / 10 ^ 8)) center_mean smoothed_mean)
           (\<lambda>ratio. Inr (map (clip1 (8 / 10) (12 / 10)) ratio)))"

definition apply_color_consistency :: "float_frame \<Rightarrow> float_frame \<Rightarrow> py_error + float_frame" where
  "apply_color_consistency smoothed_frame center_frame =
     and_then (color_ratio smoothed_frame center_frame)
       (\<lambda>ratio. mul_channels smoothed_frame ratio)"

definition enhanced_temporal_smooth :: "frame list \<Rightarrow> int \<Rightarrow> py_error + frame" where
  "enhanced_temporal_smooth window_frames center_idx =
     (if length window_frames = 1 then Inr (window_frames ! 0)
      else
        (let float_frames = map astype_float32 window_frames
         in and_then (weighted_average 1 float_frames center_idx) (\<lambda>smoothed.
            and_then (py_get float_frames center_idx) (\<lambda>center_frame.
            and_then (apply_color_consistency smoothed center_frame) (\<lambda>smoothed.
            Inr (astype_uint8 (np_clip smoothed 0 255)))))))"

definition ds_temporal_smooth :: "frame list \<Rightarrow> int \<Rightarrow> py_error + frame" where
  "ds_temporal_smooth window_frames center_idx =
     (if length window_frames = 1 then Inr (window_frames ! 0)
      else
        (let float_frames = map astype_float32 window_frames
         in and_then (weighted_average (1/2) float_frames center_idx) (\<lambda>smoothed.
            Inr (astype_uint8 (np_clip smoothed 0 255)))))"

definition apply_enhanced_temporal_consistency :: "frame list \<Rightarrow> int \<Rightarrow> py_error + frame list" where
  "apply_enhanced_temporal_consistency frames window_size =
     (if int (length frames) < window_size then Inr frames
      else
        (case for_each
                (\<lambda>i. enhanced_temporal_smooth (window_of frames window_size (int i))
                        (int i - start_idx (int i) window_size))
                [0..<length frames] of
           Inl e \<Rightarrow> Inr frames
         | Inr consistent_frames \<Rightarrow> Inr consistent_frames))"

definition ds_apply_temporal_consistency :: "frame list \<Rightarrow> int \<Rightarrow> py_error + frame list" where
  "ds_apply_temporal_consistency frames window_size =
     (if int (length frames) < window_size then Inr frames
      else
        (case for_each
                (\<lambda>i. ds_temporal_smooth (window_of frames window_size (int i))
                        (int i - start_idx (int i) window_size))
                [0..<length frames] of
           Inl e \<Rightarrow> Inr frames
         | Inr consistent_frames \<Rightarrow> Inr consistent_frames))"

subsection \<open>The same functions over a store of array objects\<close>

text \<open>
  The functions above compute with array values. In the source the frames are references
  to mutable numpy arrays, and \<^verbatim>\<open>smoothed += ...\<close> writes into an array in place. To
  state what the smoother does to the caller's arrays, the functions are given once more
  over an explicit store: a store is the list of all array objects, an address is an index
  into it, a frame sequence is a list of addresses, and every numpy call that returns a
  new array allocates a new address. One-dimensional temporaries (weights, means, ratios)
  are not frame buffers and stay values.
\<close>

datatype array_obj = U8 frame | F32 float_frame

type_synonym store = "array_obj list"

definition alloc :: "store \<Rightarrow> array_obj \<Rightarrow> store \<times> nat" where
  "alloc st obj = (st @ [obj], length st)"

text \<open>The contents of an array read as floating-point numbers.\<close>

definition as_float :: "array_obj \<Rightarrow> float_frame" where
  "as_float obj = (case obj of U8 a \<Rightarrow> astype_float32 a | F32 a \<Rightarrow> a)"

text \<open>\<^verbatim>\<open>[frame.astype(np.float32) for frame in window_frames]\<close>: one new array per frame.\<close>

fun astype_all :: "store \<Rightarrow> nat list \<Rightarrow> store \<times> nat list" where
  "astype_all st [] = (st, [])"
| "astype_all st (r # rs) =
     (case alloc st (F32 (as_float (st ! r))) of (st1, a) \<Rightarrow>
      case astype_all st1 rs of (st2, as) \<Rightarrow> (st2, a # as))"

text \<open>
  The accumulation loop: \<^verbatim>\<open>weights[i] * frame\<close> is a new array, and the in-place
  addition overwrites the array at the address \<open>smoothed\<close>.
\<close>

fun accumulate_st :: "store \<Rightarrow> nat \<Rightarrow> (real \<times> nat) list \<Rightarrow> store \<times> (py_error + unit)" where
  "accumulate_st st smoothed [] = (st, Inr ())"
| "accumulate_st st smoothed ((wt, frame) # rest) =
     (case alloc st (F32 (scale wt (as_float (st ! frame)))) of (st1, tmp) \<Rightarrow>
      case iadd (as_float (st1 ! smoothed)) (as_float (st1 ! tmp)) of
        Inl e \<Rightarrow> (st1, Inl e)
      | Inr v \<Rightarrow> accumulate_st (st1[smoothed := F32 v]) smoothed rest)"

definition weighted_average_st :: "real \<Rightarrow> store \<Rightarrow> nat list \<Rightarrow> int \<Rightarrow> store \<times> (py_error + nat)" where
  "weighted_average_st decay st float_frames center_idx =
     (case float_frames of
        [] \<Rightarrow> (st, Inl IndexError)
      | f0 # _ \<Rightarrow>
          (case alloc st (F32 (zeros_like (as_float (st ! f0)))) of (st1, smoothed) \<Rightarrow>
           case accumulate_st st1 smoothed
                  (zip (weights decay (length float_frames) center_idx) float_frames) of
             (st2, Inl e) \<Rightarrow> (st2, Inl e)
           | (st2, Inr _) \<Rightarrow> (st2, Inr smoothed)))"

text \<open>\<^verbatim>\<open>np.clip(smoothed, 0, 255).astype(np.uint8)\<close>: two new arrays.\<close>

definition clip_to_uint8_st :: "store \<Rightarrow> nat \<Rightarrow> store \<times> nat" where
  "clip_to_uint8_st st smoothed =
     (case alloc st (F32 (np_clip (as_float (st ! smoothed)) 0 255)) of (st1, clipped) \<Rightarrow>
        alloc st1 (U8 (astype_uint8 (as_float (st1 ! clipped)))))"

definition vp_temporal_smooth_st :: "store \<Rightarrow> nat list \<Rightarrow> int \<Rightarrow> store \<times> (py_error + nat)" where
  "vp_temporal_smooth_st st window_frames center_idx =
     (if length window_frames = 1 then (st, Inr (window_frames ! 0))
      else
        (case astype_all st window_frames of (st1, float_frames) \<Rightarrow>
         case weighted_average_st (1/2) st1 float_frames center_idx of
           (st2, Inl e) \<Rightarrow> (st2, Inl e)
         | (st2, Inr smoothed) \<Rightarrow>
             (case clip_to_uint8_st st2 smoothed of (st3, out) \<Rightarrow> (st3, Inr out))))"

text \<open>\<^verbatim>\<open>corrected = smoothed_frame * color_ratio\<close> is a new array.\<close>

definition apply_color_consistency_st :: "store \<Rightarrow> nat \<Rightarrow> nat \<Rightarrow> store \<times> (py_error + nat)" where
  "apply_color_consistency_st st smoothed_frame center_frame =
     (case apply_color_consistency (as_float (st ! smoothed_frame)) (as_float (st ! center_frame)) of
        Inl e \<Rightarrow> (st, Inl e)
      | Inr corrected \<Rightarrow> (case alloc st (F32 corrected) of (st1, a) \<Rightarrow> (st1, Inr a)))"

definition enhanced_temporal_smooth_st :: "store \<Rightarrow> nat list \<Rightarrow> int \<Rightarrow> store \<times> (py_error + nat)" where
  "enhanced_temporal_smooth_st st window_frames center_idx =
     (if length window_frames = 1 then (st, Inr (window_frames ! 0))
      else
        (case astype_all st window_frames of (st1, float_frames) \<Rightarrow>
         case weighted_average_st 1 st1 float_frames center_idx of
           (st2, Inl e) \<Rightarrow> (st2, Inl e)
         | (st2, Inr smoothed) \<Rightarrow>
             (case py_get float_frames center_idx of
                Inl e \<Rightarrow> (st2, Inl e)
              | Inr center_frame \<Rightarrow>
                  (case apply_color_consistency_st st2 smoothed center_frame of
                     (st3, Inl e) \<Rightarrow> (st3, Inl e)
                   | (st3, Inr corrected) \<Rightarrow>
                       (case clip_to_uint8_st st3 corrected of (st4, out) \<Rightarrow> (st4, Inr out))))))"

text \<open>The loop over the output indices, threading the store.\<close>

fun for_each_st ::
  "(store \<Rightarrow> 'a \<Rightarrow> store \<times> (py_error + 'b)) \<Rightarrow> store \<Rightarrow> 'a list \<Rightarrow> store \<times> (py_error + 'b list)" where
  "for_each_st f st [] = (st, Inr [])"
| "for_each_st f st (x # xs) =
     (case f st x of
        (st1, Inl e) \<Rightarrow> (st1, Inl e)
      | (st1, Inr y) \<Rightarrow>
          (case for_each_st f st1 xs of
             (st2, Inl e) \<Rightarrow> (st2, Inl e)
           | (st2, Inr ys) \<Rightarrow> (st2, Inr (y # ys))))"

definition vp_apply_temporal_consistency_st ::
  "store \<Rightarrow> nat list \<Rightarrow> int \<Rightarrow> store \<times> (py_error + nat list)" where
  "vp_apply_temporal_consistency_st st frames window_size =
     (if int (length frames) < window_size then (st, Inr frames)
      else
        (case for_each_st
                (\<lambda>st i. vp_temporal_smooth_st st (window_of frames window_size (int i))
                           (int i - start_idx (int i) window_size))
                st [0..<length frames] of
           (st1, Inl e) \<Rightarrow> (st1, Inr frames)
         | (st1, Inr consistent_frames) \<Rightarrow> (st1, Inr consistent_frames)))"

definition apply_enhanced_temporal_consistency_st ::
  "store \<Rightarrow> nat list \<Rightarrow> int \<Rightarrow> store \<times> (py_error + nat list)" where
  "apply_enhanced_temporal_consistency_st st frames window_size =
     (if int (length frames) < window_size then (st, Inr frames)
      else
        (case for_each_st
                (\<lambda>st i. enhanced_temporal_smooth_st st (window_of frames window_size (int i))
                           (int i - start_idx (int i) window_size))
                st [0..<length frames] of
           (st1, Inl e) \<Rightarrow> (st1, Inr frames)
         | (st1, Inr consistent_frames) \<Rightarrow> (st1, Inr consistent_frames)))"

text \<open>
  The store \<open>st'\<close> extends \<open>st\<close>: every array of \<open>st\<close> is still there with the same
  contents.
\<close>

definition extends :: "store \<Rightarrow> store \<Rightarrow> bool" where
  "extends st st' \<longleftrightarrow> length st \<le> length st' \<and> take (length st) st' = st"

text \<open>The frames a list of addresses refers to, when every address holds a uint8 array.\<close>

definition frames_at :: "store \<Rightarrow> nat list \<Rightarrow> frame list option" where
  "frames_at st refs =
     (if list_all (\<lambda>r. r < length st \<and> (case st ! r of U8 _ \<Rightarrow> True | F32 _ \<Rightarrow> False)) refs
      then Some (map (\<lambda>r. case st ! r of U8 a \<Rightarrow> a | F32 a \<Rightarrow> astype_uint8 a) refs)
      else None)"

subsection \<open>Reference formulas\<close>

text \<open>
  The elementwise weighted sum of a window at one sample position, over the frames
  converted to floating point.
\<close>

definition weighted_sum_at :: "real list \<Rightarrow> frame list \<Rightarrow> nat \<Rightarrow> nat \<Rightarrow> nat \<Rightarrow> real" where
  "weighted_sum_at ws window i j k =
     (\<Sum>m<length window. ws ! m * real (unat (window ! m ! i ! j ! k)))"

text \<open>
  The output frame in the words of the specification, for either mode: the elementwise
  weighted sum of the window's float frames, each channel value clamped to [0, 255] and
  rounded to an integer sample.
\<close>

definition spec_output_frame :: "real \<Rightarrow> frame list \<Rightarrow> int \<Rightarrow> py_error + frame" where
  "spec_output_frame decay window center_offset =
     and_then (weighted_average decay (map astype_float32 window) center_offset)
       (\<lambda>blended. Inr (map (map (map (\<lambda>x. (word_of_int (round (clip1 0 255 x)) :: 8 word))))
          blended))"

text \<open>
  An operand of shape \<open>(h, w, c)\<close> can be added in place into an array of shape
  \<open>(H, W, C)\<close> exactly when every dimension fits; this is the test made by \<open>iadd\<close>.
\<close>

definition fits_shape :: "nat \<times> nat \<times> nat \<Rightarrow> nat \<times> nat \<times> nat \<Rightarrow> bool" where
  "fits_shape operand output =
     (case operand of (h, w, c) \<Rightarrow> case output of (H, W, C) \<Rightarrow>
        fits h H \<and> fits w W \<and> fits c C)"

section \<open>Verification\<close>

subsection \<open>Iteration and slices\<close>

lemma for_each_length: "for_each f xs = Inr ys \<Longrightarrow> length ys = length xs"
  by (induction xs arbitrary: ys) (auto split: sum.splits)

lemma for_each_all:
  "(\<And>x. x \<in> set xs \<Longrightarrow> f x = Inr (g x)) \<Longrightarrow> for_each f xs = Inr (map g xs)"
  by (induction xs) auto

lemma for_each_raises:
  "x \<in> set xs \<Longrightarrow> f x = Inl e \<Longrightarrow> \<exists>e'. for_each f xs = Inl e'"
  by (induction xs) (auto split: sum.splits)

lemma take_drop_range:
  "b \<le> length xs \<Longrightarrow> take (b - a) (drop a xs) = map ((!) xs) [a..<b]"
  by (rule nth_equalityI) auto

lemma py_slice_range:
  assumes "0 \<le> a" "a \<le> b" "b \<le> int (length xs)"
  shows "py_slice xs a b = map ((!) xs) [nat a..<nat b]"
proof -
  have "nat b \<le> length xs" using assms by linarith
  then have "take (nat b - nat a) (drop (nat a) xs) = map ((!) xs) [nat a..<nat b]"
    by (rule take_drop_range)
  then show ?thesis
    using assms by (simp add: py_slice_def slice_bound_def min_def)
qed

lemma window_of_range:
  assumes w: "0 \<le> w" and i: "i < length frames"
  defines "s \<equiv> start_idx (int i) w"
  defines "e \<equiv> end_idx (int (length frames)) (int i) w"
  shows "0 \<le> s" "s \<le> int i" "int i < e" "e \<le> int (length frames)"
    and "window_of frames w (int i) = map ((!) frames) [nat s..<nat e]"
proof -
  have h: "0 \<le> w div 2" using w by simp
  show s: "0 \<le> s" "s \<le> int i" using h by (simp_all add: s_def start_idx_def)
  show e: "int i < e" "e \<le> int (length frames)"
    using h i by (simp_all add: e_def end_idx_def)
  show "window_of frames w (int i) = map ((!) frames) [nat s..<nat e]"
    unfolding window_of_def s_def [symmetric] e_def [symmetric]
    using s e by (intro py_slice_range) linarith+
qed

subsection \<open>The smoothing window\<close>



text \<open>
  The bound on the window size matters: Python's floor division makes
  \<open>window_size // 2\<close> negative for a negative window size, and the window then starts
  after the index it is computed for.
\<close>

lemma negative_window_size_shifts_start: "start_idx 0 (- 2) = 1"
  by (simp add: start_idx_def)

subsection \<open>Pass-through and the empty sequence\<close>

text \<open>
  Claim C5. A sequence shorter than the window size is returned as it is, element for
  element, by the enhanced smoother and by both basic smoothers; the call returns
  normally.
\<close>

theorem pass_through_short_sequence:
  assumes "int (length frames) < window_size"
  shows "apply_enhanced_temporal_consistency frames window_size = Inr frames
    \<and> ds_apply_temporal_consistency frames window_size = Inr frames
    \<and> vp_apply_temporal_consistency frames window_size = Inr frames"
  using assms
  by (simp add: apply_enhanced_temporal_consistency_def ds_apply_temporal_consistency_def
      vp_apply_temporal_consistency_def)

theorem pass_through_short_sequence_witness:
  "apply_enhanced_temporal_consistency [[[[1, 2, 3]]], [[[4, 5, 6]]]] 5 =
     Inr [[[[1, 2, 3]]], [[[4, 5, 6]]]]
   \<and> vp_apply_temporal_consistency [[[[1, 2, 3]]], [[[4, 5, 6]]]] 5 =
     Inr [[[[1, 2, 3]]], [[[4, 5, 6]]]]"
  using pass_through_short_sequence [of "[[[[1, 2, 3]]], [[[4, 5, 6]]]]" 5]
  by simp

text \<open>
  Claim C6, as stated, asks for a failed call on the empty sequence. The smoothers have
  no emptiness check: with the default window size 5 the length test
  \<open>len(frames) < window_size\<close> holds and the empty list is returned.
\<close>

theorem empty_sequence_not_rejected:
  "apply_enhanced_temporal_consistency [] 5 = Inr []
   \<and> vp_apply_temporal_consistency [] 5 = Inr []"
  by (simp add: apply_enhanced_temporal_consistency_def vp_apply_temporal_consistency_def)

text \<open>
  Claim C6, amended. For the empty frame sequence and any window size, every smoothing
  entry point returns the empty sequence and reports no error: either the length test
  passes it through, or the loop runs zero times.
\<close>

theorem empty_sequence_returned:
  "apply_enhanced_temporal_consistency [] window_size = Inr []
   \<and> ds_apply_temporal_consistency [] window_size = Inr []
   \<and> vp_apply_temporal_consistency [] window_size = Inr []"
  by (simp add: apply_enhanced_temporal_consistency_def ds_apply_temporal_consistency_def
      vp_apply_temporal_consistency_def)

subsection \<open>The two basic implementations\<close>

lemma temporal_smooth_same: "ds_temporal_smooth = vp_temporal_smooth"
  by (intro ext) (simp add: ds_temporal_smooth_def vp_temporal_smooth_def)

text \<open>
  Claim C10. For every frame sequence and every window size passed explicitly,
  \<open>DiffusionService._apply_temporal_consistency\<close> and
  \<open>VideoProcessor.apply_temporal_consistency\<close> return the same result.
\<close>

theorem basic_implementations_equal:
  "ds_apply_temporal_consistency frames window_size =
   vp_apply_temporal_consistency frames window_size"
  by (simp add: ds_apply_temporal_consistency_def vp_apply_temporal_consistency_def
      temporal_smooth_same)

subsection \<open>Weights\<close>

lemma sum_list_divide: "sum_list (map (\<lambda>x. x / c) xs) = sum_list xs / (c::real)"
  by (induction xs) (simp_all add: add_divide_distrib)

lemma raw_weights_length [simp]: "length (raw_weights d n c) = n"
  by (simp add: raw_weights_def)

lemma raw_weights_nth:
  "k < n \<Longrightarrow> raw_weights d n c ! k = exp (- d * (real_of_int (int k - c))\<^sup>2)"
  by (simp add: raw_weights_def)

lemma raw_weights_sum_pos: "0 < n \<Longrightarrow> 0 < sum_list (raw_weights d n c)"
proof -
  assume "0 < n"
  then obtain m where n: "n = Suc m" by (cases n) auto
  have "\<And>x. x \<in> set (raw_weights d n c) \<Longrightarrow> 0 \<le> x" by (auto simp: raw_weights_def)
  then have "0 \<le> sum_list (map (\<lambda>k. exp (- d * (real_of_int (int k - c))\<^sup>2)) [0..<m])"
    by (intro sum_list_nonneg) auto
  moreover have "0 < exp (- d * (real_of_int (int m - c))\<^sup>2)" by simp
  ultimately show ?thesis unfolding n raw_weights_def by (simp del: exp_gt_zero)
qed

lemma weights_length [simp]: "length (weights d n c) = n"
  by (simp add: weights_def Let_def)

lemma weights_sum: "0 < n \<Longrightarrow> sum_list (weights d n c) = 1"
  using raw_weights_sum_pos [of n d c] by (simp add: weights_def Let_def sum_list_divide)

lemma weights_nth:
  "k < n \<Longrightarrow> weights d n c ! k = raw_weights d n c ! k / sum_list (raw_weights d n c)"
  by (simp add: weights_def Let_def)


text \<open>
  Claim C2. For a window of \<open>n > 0\<close> frames and any centre index, the weight computed for
  member \<open>k\<close> is \<open>exp(-decay * (k - center_idx)^2)\<close> divided by the sum of these values
  over the window; the normalised weights are positive and sum to 1 (in the exact
  arithmetic of the model the sum is 1, hence within any tolerance such as 1e-6). The
  basic smoothers call this with decay 1/2 and the enhanced smoother with decay 1, see
  \<open>vp_temporal_smooth\<close>, \<open>ds_temporal_smooth\<close> and \<open>enhanced_temporal_smooth\<close>.
\<close>

theorem weights_gaussian_normalized:
  assumes "0 < n"
  shows "length (weights decay n center_idx) = n
    \<and> (\<forall>k<n. raw_weights decay n center_idx ! k = exp (- decay * (real_of_int (int k - center_idx))\<^sup>2)
           \<and> weights decay n center_idx ! k =
               raw_weights decay n center_idx ! k / sum_list (raw_weights decay n center_idx)
           \<and> 0 < weights decay n center_idx ! k)
    \<and> sum_list (weights decay n center_idx) = 1
    \<and> \<bar>sum_list (weights decay n center_idx) - 1\<bar> \<le> 1 / 10 ^ 6"
proof -
  have pos: "0 < sum_list (raw_weights decay n center_idx)"
    using assms by (rule raw_weights_sum_pos)
  have "0 < weights decay n center_idx ! k" if "k < n" for k
    using that pos by (simp add: weights_nth raw_weights_nth)
  then show ?thesis
    using assms by (simp add: weights_sum weights_nth raw_weights_nth)
qed

theorem weights_gaussian_normalized_witness:
  "sum_list (weights (1/2) 3 1) = 1
   \<and> weights (1/2) 3 1 ! 1 = raw_weights (1/2) 3 1 ! 1 / sum_list (raw_weights (1/2) 3 1)
   \<and> raw_weights (1/2) 3 1 ! 0 = exp (- (1/2) * (real_of_int (int 0 - 1))\<^sup>2)
   \<and> 0 < weights (1/2) 3 1 ! 2"
proof -
  have n: "(0::nat) < 3" by simp
  note t = weights_gaussian_normalized [OF n, of "1/2" 1]
  from t have a: "\<forall>k<3. raw_weights (1/2) 3 1 ! k = exp (- (1/2) * (real_of_int (int k - 1))\<^sup>2)
           \<and> weights (1/2) 3 1 ! k = raw_weights (1/2) 3 1 ! k / sum_list (raw_weights (1/2) 3 1)
           \<and> 0 < weights (1/2) 3 1 ! k"
    by blast
  have a0: "(0::nat) < 3" and a1: "(1::nat) < 3" and a2: "(2::nat) < 3" by simp_all
  from t have s: "sum_list (weights (1/2) 3 1) = 1" by blast
  show ?thesis
    using s a [rule_format, OF a0] a [rule_format, OF a1] a [rule_format, OF a2] by blast
qed

subsection \<open>Arrays of equal shape\<close>

lemma is_ndarray_nth:
  "is_ndarray h w c a \<longleftrightarrow>
     length a = h \<and> (\<forall>i<h. length (a ! i) = w \<and> (\<forall>j<w. length (a ! i ! j) = c))"
  by (auto simp: is_ndarray_def list_all_length)

lemma is_ndarrayD:
  assumes "is_ndarray h w c a"
  shows "length a = h" "i < h \<Longrightarrow> length (a ! i) = w"
    "i < h \<Longrightarrow> j < w \<Longrightarrow> length (a ! i ! j) = c"
  using assms by (simp_all add: is_ndarray_nth)

lemma ndarray_eqI:
  assumes a: "is_ndarray h w c a" and b: "is_ndarray h w c b"
    and eq: "\<And>i j k. i < h \<Longrightarrow> j < w \<Longrightarrow> k < c \<Longrightarrow> a ! i ! j ! k = b ! i ! j ! k"
  shows "a = b"
proof (rule nth_equalityI)
  show "length a = length b" using a b by (simp add: is_ndarrayD)
next
  fix i assume "i < length a"
  then have i: "i < h" using a by (simp add: is_ndarrayD)
  show "a ! i = b ! i"
  proof (rule nth_equalityI)
    show "length (a ! i) = length (b ! i)" using a b i by (simp add: is_ndarrayD)
  next
    fix j assume "j < length (a ! i)"
    then have j: "j < w" using a i by (simp add: is_ndarrayD)
    show "a ! i ! j = b ! i ! j"
    proof (rule nth_equalityI)
      show "length (a ! i ! j) = length (b ! i ! j)" using a b i j by (simp add: is_ndarrayD)
    next
      fix k assume "k < length (a ! i ! j)"
      then have "k < c" using a i j by (simp add: is_ndarrayD)
      with i j show "a ! i ! j ! k = b ! i ! j ! k" by (simp add: eq)
    qed
  qed
qed

lemma map3_ndarray:
  "is_ndarray h w c a \<Longrightarrow> is_ndarray h w c (map (map (map f)) a)"
  by (simp add: is_ndarray_nth)

lemma map3_nth:
  "is_ndarray h w c a \<Longrightarrow> i < h \<Longrightarrow> j < w \<Longrightarrow> k < c \<Longrightarrow>
     map (map (map f)) a ! i ! j ! k = f (a ! i ! j ! k)"
  by (simp add: is_ndarray_nth)

lemma shape_map3: "shape (map (map (map f)) a) = shape a"
  by (simp add: shape_def split: list.splits)

lemma shape_is_ndarray:
  "is_ndarray h w c a \<Longrightarrow>
     shape a = (h, if h = 0 then 0 else w, if h = 0 \<or> w = 0 then 0 else c)"
  by (auto simp: is_ndarray_def shape_def split: list.splits)

lemma add_broadcast_same_shape:
  assumes s: "is_ndarray h w c s" and t: "is_ndarray h w c t"
  shows "is_ndarray h w c (add_broadcast s t)"
    and "i < h \<Longrightarrow> j < w \<Longrightarrow> k < c \<Longrightarrow>
          add_broadcast s t ! i ! j ! k = s ! i ! j ! k + t ! i ! j ! k"
proof -
  note sd = is_ndarrayD [OF s] and td = is_ndarrayD [OF t]
  have sh: "shape s = (h, if h = 0 then 0 else w, if h = 0 \<or> w = 0 then 0 else c)"
    using s by (rule shape_is_ndarray)
  show "is_ndarray h w c (add_broadcast s t)"
    by (auto simp: is_ndarray_nth add_broadcast_def sh stretch_def sd td)
  show "add_broadcast s t ! i ! j ! k = s ! i ! j ! k + t ! i ! j ! k"
    if "i < h" "j < w" "k < c"
    using that by (auto simp: add_broadcast_def sh stretch_def sd td)
qed

lemma iadd_same_shape:
  assumes s: "is_ndarray h w c s" and t: "is_ndarray h w c t"
  shows "iadd s t = Inr (add_broadcast s t)"
  by (simp add: iadd_def shape_is_ndarray [OF s] shape_is_ndarray [OF t] fits_def)

lemma scale_ndarray: "is_ndarray h w c a \<Longrightarrow> is_ndarray h w c (scale x a)"
  unfolding scale_def by (rule map3_ndarray)

lemma accumulate_same_shape:
  assumes "is_ndarray h w c s" and "\<forall>f\<in>set fs. is_ndarray h w c f"
    and "length ws = length fs"
  shows "\<exists>r. accumulate s (zip ws fs) = Inr r \<and> is_ndarray h w c r \<and>
           (\<forall>i<h. \<forall>j<w. \<forall>k<c.
              r ! i ! j ! k = s ! i ! j ! k + (\<Sum>m<length fs. ws ! m * fs ! m ! i ! j ! k))"
  using assms
proof (induction fs arbitrary: ws s)
  case Nil
  then show ?case by simp
next
  case (Cons f fs)
  from Cons.prems(3) obtain x ws' where ws: "ws = x # ws'" and len: "length ws' = length fs"
    by (cases ws) auto
  have f: "is_ndarray h w c f" and fs: "\<forall>g\<in>set fs. is_ndarray h w c g"
    using Cons.prems(2) by simp_all
  have sf: "is_ndarray h w c (scale x f)" using f by (rule scale_ndarray)
  define s' where "s' = add_broadcast s (scale x f)"
  have step: "iadd s (scale x f) = Inr s'"
    unfolding s'_def using Cons.prems(1) sf by (rule iadd_same_shape)
  have s': "is_ndarray h w c s'"
    unfolding s'_def using Cons.prems(1) sf by (rule add_broadcast_same_shape(1))
  have s'_nth: "s' ! i ! j ! k = s ! i ! j ! k + x * f ! i ! j ! k"
    if "i < h" "j < w" "k < c" for i j k
    unfolding s'_def
    using add_broadcast_same_shape(2) [OF Cons.prems(1) sf that] map3_nth [OF f that]
    by (simp add: scale_def)
  from Cons.IH [OF s' fs len] obtain r where
    r: "accumulate s' (zip ws' fs) = Inr r" "is_ndarray h w c r"
    and r_nth: "\<forall>i<h. \<forall>j<w. \<forall>k<c.
        r ! i ! j ! k = s' ! i ! j ! k + (\<Sum>m<length fs. ws' ! m * fs ! m ! i ! j ! k)"
    by blast
  have "r ! i ! j ! k = s ! i ! j ! k + (\<Sum>m<length (f # fs). ws ! m * (f # fs) ! m ! i ! j ! k)"
    if "i < h" "j < w" "k < c" for i j k
    using r_nth that s'_nth [OF that]
    by (simp add: ws sum.lessThan_Suc_shift del: sum.lessThan_Suc)
  then show ?case using r step by (simp add: ws)
qed

lemma zeros_like_ndarray: "is_ndarray h w c a \<Longrightarrow> is_ndarray h w c (zeros_like a)"
  unfolding zeros_like_def by (rule map3_ndarray)

lemma zeros_like_nth:
  "is_ndarray h w c a \<Longrightarrow> i < h \<Longrightarrow> j < w \<Longrightarrow> k < c \<Longrightarrow> zeros_like a ! i ! j ! k = 0"
  unfolding zeros_like_def by (simp add: map3_nth)

lemma weighted_average_same_shape:
  assumes ne: "fs \<noteq> []" and all: "\<forall>f\<in>set fs. is_ndarray h w c f"
  shows "\<exists>r. weighted_average d fs ci = Inr r \<and> is_ndarray h w c r \<and>
           (\<forall>i<h. \<forall>j<w. \<forall>k<c.
              r ! i ! j ! k = (\<Sum>m<length fs. weights d (length fs) ci ! m * fs ! m ! i ! j ! k))"
proof -
  from ne obtain f0 rest where fs: "fs = f0 # rest" by (cases fs) auto
  have f0: "is_ndarray h w c f0" using all fs by simp
  have z: "is_ndarray h w c (zeros_like f0)" using f0 by (rule zeros_like_ndarray)
  have len: "length (weights d (length fs) ci) = length fs" by simp
  from accumulate_same_shape [OF z all len] obtain r where
    r: "accumulate (zeros_like f0) (zip (weights d (length fs) ci) fs) = Inr r"
      "is_ndarray h w c r"
    and r_nth: "\<forall>i<h. \<forall>j<w. \<forall>k<c. r ! i ! j ! k =
        zeros_like f0 ! i ! j ! k + (\<Sum>m<length fs. weights d (length fs) ci ! m * fs ! m ! i ! j ! k)"
    by blast
  have "weighted_average d fs ci = Inr r"
    using r(1) by (simp add: weighted_average_def fs)
  moreover have "\<forall>i<h. \<forall>j<w. \<forall>k<c.
      r ! i ! j ! k = (\<Sum>m<length fs. weights d (length fs) ci ! m * fs ! m ! i ! j ! k)"
    using r_nth zeros_like_nth [OF f0] by simp
  ultimately show ?thesis using r(2) by blast
qed

lemma float_window_sum:
  assumes all: "\<forall>f\<in>set window. is_ndarray h w c f" and ijk: "i < h" "j < w" "k < c"
  shows "(\<Sum>m<length (map astype_float32 window). ws ! m * map astype_float32 window ! m ! i ! j ! k)
           = weighted_sum_at ws window i j k"
proof -
  have "map astype_float32 window ! m ! i ! j ! k = real (unat (window ! m ! i ! j ! k))"
    if "m < length window" for m
  proof -
    have "is_ndarray h w c (window ! m)" using all that by simp
    then show ?thesis using that ijk by (simp add: astype_float32_def map3_nth)
  qed
  then show ?thesis by (simp add: weighted_sum_at_def)
qed

subsection \<open>Conversion to 8-bit samples\<close>

lemma clip1_bounds: "lo \<le> hi \<Longrightarrow> lo \<le> clip1 lo hi x \<and> clip1 lo hi x \<le> hi"
  by (simp add: clip1_def min_def max_def)

lemma trunc_clip: "trunc (clip1 0 255 x) = \<lfloor>clip1 0 255 x\<rfloor>"
  using clip1_bounds [of 0 255 x] by (simp add: trunc_def)

lemma floor_clip_range: "0 \<le> \<lfloor>clip1 0 255 x\<rfloor> \<and> \<lfloor>clip1 0 255 x\<rfloor> \<le> 255"
  using clip1_bounds [of 0 255 x] by (simp add: floor_le_iff le_floor_iff)

lemma uint8_of_int: "0 \<le> n \<Longrightarrow> n \<le> 255 \<Longrightarrow> int (unat (word_of_int n :: 8 word)) = n"
  by (simp add: unsigned_of_int take_bit_int_eq_self)

lemma sample_of_clip:
  "int (unat (word_of_int (trunc (clip1 0 255 x)) :: 8 word)) = \<lfloor>clip1 0 255 x\<rfloor>"
proof -
  have "0 \<le> \<lfloor>clip1 0 255 x\<rfloor>" "\<lfloor>clip1 0 255 x\<rfloor> \<le> 255"
    using floor_clip_range [of x] by blast+
  then have "int (unat (word_of_int \<lfloor>clip1 0 255 x\<rfloor> :: 8 word)) = \<lfloor>clip1 0 255 x\<rfloor>"
    by (rule uint8_of_int)
  then show ?thesis by (simp only: trunc_clip)
qed

lemma np_clip_ndarray: "is_ndarray h w c a \<Longrightarrow> is_ndarray h w c (np_clip a lo hi)"
  unfolding np_clip_def by (rule map3_ndarray)

lemma np_clip_nth:
  "is_ndarray h w c a \<Longrightarrow> i < h \<Longrightarrow> j < w \<Longrightarrow> k < c \<Longrightarrow>
     np_clip a lo hi ! i ! j ! k = clip1 lo hi (a ! i ! j ! k)"
  unfolding np_clip_def by (rule map3_nth)

lemma astype_uint8_ndarray: "is_ndarray h w c a \<Longrightarrow> is_ndarray h w c (astype_uint8 a)"
  unfolding astype_uint8_def by (rule map3_ndarray)

lemma astype_uint8_nth:
  "is_ndarray h w c a \<Longrightarrow> i < h \<Longrightarrow> j < w \<Longrightarrow> k < c \<Longrightarrow>
     astype_uint8 a ! i ! j ! k = word_of_int (trunc (a ! i ! j ! k))"
  unfolding astype_uint8_def by (rule map3_nth)

lemma to_uint8_ndarray:
  "is_ndarray h w c a \<Longrightarrow> is_ndarray h w c (astype_uint8 (np_clip a lo hi))"
  by (intro astype_uint8_ndarray np_clip_ndarray)

lemma to_uint8_nth:
  assumes "is_ndarray h w c a" "i < h" "j < w" "k < c"
  shows "astype_uint8 (np_clip a lo hi) ! i ! j ! k = word_of_int (trunc (clip1 lo hi (a ! i ! j ! k)))"
  using astype_uint8_nth [OF np_clip_ndarray [OF assms(1)] assms(2-4)] np_clip_nth [OF assms]
  by simp

lemma basic_smooth_output:
  assumes len: "2 \<le> length window" and all: "\<forall>f\<in>set window. is_ndarray h w c f"
  shows "\<exists>out. vp_temporal_smooth window ci = Inr out \<and> is_ndarray h w c out \<and>
     (\<forall>i<h. \<forall>j<w. \<forall>k<c. out ! i ! j ! k =
        word_of_int (trunc (clip1 0 255
          (weighted_sum_at (weights (1/2) (length window) ci) window i j k))))"
proof -
  let ?fs = "map astype_float32 window"
  have ne: "?fs \<noteq> []" using len by auto
  have fall: "\<forall>f\<in>set ?fs. is_ndarray h w c f"
    using all by (auto simp: astype_float32_def intro: map3_ndarray)
  from weighted_average_same_shape [OF ne fall, of "1/2" ci] obtain r where
    r: "weighted_average (1/2) ?fs ci = Inr r" "is_ndarray h w c r"
    and r_nth: "\<forall>i<h. \<forall>j<w. \<forall>k<c. r ! i ! j ! k =
       (\<Sum>m<length ?fs. weights (1/2) (length ?fs) ci ! m * ?fs ! m ! i ! j ! k)"
    by blast
  have "vp_temporal_smooth window ci = Inr (astype_uint8 (np_clip r 0 255))"
    using len r(1) by (simp add: vp_temporal_smooth_def and_then_def)
  moreover have "is_ndarray h w c (astype_uint8 (np_clip r 0 255))"
    using r(2) by (rule to_uint8_ndarray)
  moreover have "astype_uint8 (np_clip r 0 255) ! i ! j ! k =
        word_of_int (trunc (clip1 0 255
          (weighted_sum_at (weights (1/2) (length window) ci) window i j k)))"
    if "i < h" "j < w" "k < c" for i j k
    using to_uint8_nth [OF r(2) that] r_nth that float_window_sum [OF all that]
    by simp
  ultimately show ?thesis by blast
qed

subsection \<open>Colour consistency\<close>

lemma shape_positive:
  "is_ndarray h w c a \<Longrightarrow> 0 < h \<Longrightarrow> 0 < w \<Longrightarrow> shape a = (h, w, c)"
  by (simp add: shape_is_ndarray)

lemma mean01_length:
  "is_ndarray h w c a \<Longrightarrow> 0 < h \<Longrightarrow> 0 < w \<Longrightarrow> length (mean01 a) = c"
  by (simp add: mean01_def shape_positive)

lemma mean01_nth:
  "is_ndarray h w c a \<Longrightarrow> 0 < h \<Longrightarrow> 0 < w \<Longrightarrow> k < c \<Longrightarrow>
     mean01 a ! k = (\<Sum>r\<leftarrow>a. \<Sum>p\<leftarrow>r. p ! k) / real (h * w)"
  by (simp add: mean01_def shape_positive)

lemma sum_list_nth_sum: "(\<Sum>x\<leftarrow>xs. f x) = (\<Sum>i<length xs. f (xs ! i))"
proof -
  have "(\<Sum>x\<leftarrow>xs. f x) = (\<Sum>i = 0..<length (map f xs). map f xs ! i)"
    by (rule sum_list_sum_nth)
  also have "\<dots> = (\<Sum>i<length xs. f (xs ! i))"
    by (simp add: atLeast0LessThan)
  finally show ?thesis .
qed

lemma mean01_formula:
  assumes a: "is_ndarray h w c a" and "0 < h" "0 < w" "k < c"
  shows "mean01 a ! k = (\<Sum>i<h. \<Sum>j<w. a ! i ! j ! k) / real (h * w)"
proof -
  have "(\<Sum>r\<leftarrow>a. \<Sum>p\<leftarrow>r. p ! k) = (\<Sum>i<length a. \<Sum>j<length (a ! i). a ! i ! j ! k)"
    by (simp add: sum_list_nth_sum)
  also have "\<dots> = (\<Sum>i<h. \<Sum>j<w. a ! i ! j ! k)"
    using a by (simp add: is_ndarray_nth)
  finally show ?thesis using assms by (simp add: mean01_nth)
qed

lemma color_ratio_bounds:
  assumes "color_ratio s ce = Inr ratio" and "x \<in> set ratio"
  shows "8 / 10 \<le> x \<and> x \<le> 12 / 10"
proof -
  from assms obtain y where "x = clip1 (8 / 10) (12 / 10) y"
    by (auto simp: color_ratio_def and_then_def Let_def split: sum.splits)
  then show ?thesis using clip1_bounds [of "8 / 10" "12 / 10" y] by simp
qed

lemma color_ratio_same_shape:
  assumes s: "is_ndarray h w c s" and ce: "is_ndarray h w c ce" and pos: "0 < h" "0 < w"
  shows "\<exists>ratio. color_ratio s ce = Inr ratio \<and> length ratio = c \<and>
          (\<forall>k<c. ratio ! k = clip1 (8 / 10) (12 / 10) (mean01 ce ! k / (mean01 s ! k + 1 / 10 ^ 8)))"
  using mean01_length [OF s pos] mean01_length [OF ce pos]
  by (simp add: color_ratio_def and_then_def broadcast2_def compatible_def bzip_def)

lemma mul_channels_same_shape:
  assumes s: "is_ndarray h w c s" and pos: "0 < h" "0 < w" and len: "length v = c"
  shows "\<exists>r. mul_channels s v = Inr r \<and> is_ndarray h w c r \<and>
           (\<forall>i<h. \<forall>j<w. \<forall>k<c. r ! i ! j ! k = s ! i ! j ! k * v ! k)"
proof -
  let ?r = "map (map (\<lambda>p. bzip (*) p v)) s"
  note sd = is_ndarrayD [OF s]
  have "mul_channels s v = Inr ?r"
    by (simp add: mul_channels_def shape_positive [OF s pos] compatible_def len)
  moreover have "is_ndarray h w c ?r"
    by (simp add: is_ndarray_nth sd bzip_def len)
  moreover have "?r ! i ! j ! k = s ! i ! j ! k * v ! k" if "i < h" "j < w" "k < c" for i j k
    using that by (simp add: sd bzip_def len)
  ultimately show ?thesis by blast
qed

lemma py_get_mem: "py_get xs i = Inr x \<Longrightarrow> x \<in> set xs"
  by (auto simp: py_get_def split: if_splits)

lemma py_get_map: "py_get xs i = Inr x \<Longrightarrow> py_get (map f xs) i = Inr (f x)"
  by (auto simp: py_get_def split: if_splits)

lemma enhanced_smooth_structure:
  assumes len: "2 \<le> length window" and all: "\<forall>f\<in>set window. is_ndarray h w c f"
    and pos: "0 < h" "0 < w" and center: "py_get window ci = Inr cf"
  shows "\<exists>blended ratio corrected.
      weighted_average 1 (map astype_float32 window) ci = Inr blended
    \<and> is_ndarray h w c blended
    \<and> (\<forall>i<h. \<forall>j<w. \<forall>k<c. blended ! i ! j ! k =
          weighted_sum_at (weights 1 (length window) ci) window i j k)
    \<and> color_ratio blended (astype_float32 cf) = Inr ratio
    \<and> length ratio = c
    \<and> (\<forall>k<c. ratio ! k = clip1 (8 / 10) (12 / 10)
          (mean01 (astype_float32 cf) ! k / (mean01 blended ! k + 1 / 10 ^ 8)))
    \<and> apply_color_consistency blended (astype_float32 cf) = Inr corrected
    \<and> is_ndarray h w c corrected
    \<and> (\<forall>i<h. \<forall>j<w. \<forall>k<c. corrected ! i ! j ! k = blended ! i ! j ! k * ratio ! k)
    \<and> enhanced_temporal_smooth window ci = Inr (astype_uint8 (np_clip corrected 0 255))"
proof -
  let ?fs = "map astype_float32 window"
  have ne: "?fs \<noteq> []" using len by auto
  have fall: "\<forall>f\<in>set ?fs. is_ndarray h w c f"
    using all by (auto simp: astype_float32_def intro: map3_ndarray)
  from weighted_average_same_shape [OF ne fall, of 1 ci] obtain b where
    b: "weighted_average 1 ?fs ci = Inr b" "is_ndarray h w c b"
    and b_sum: "\<forall>i<h. \<forall>j<w. \<forall>k<c. b ! i ! j ! k =
       (\<Sum>m<length ?fs. weights 1 (length ?fs) ci ! m * ?fs ! m ! i ! j ! k)"
    by blast
  have b_nth: "\<forall>i<h. \<forall>j<w. \<forall>k<c. b ! i ! j ! k =
       weighted_sum_at (weights 1 (length window) ci) window i j k"
    using b_sum float_window_sum [OF all] by simp
  have cfa: "is_ndarray h w c (astype_float32 cf)"
    using py_get_mem [OF center] all by (auto simp: astype_float32_def intro: map3_ndarray)
  have get: "py_get ?fs ci = Inr (astype_float32 cf)"
    using center by (rule py_get_map)
  from color_ratio_same_shape [OF b(2) cfa pos] obtain ratio where
    ratio: "color_ratio b (astype_float32 cf) = Inr ratio" "length ratio = c"
    and ratio_nth: "\<forall>k<c. ratio ! k = clip1 (8 / 10) (12 / 10)
          (mean01 (astype_float32 cf) ! k / (mean01 b ! k + 1 / 10 ^ 8))"
    by blast
  from mul_channels_same_shape [OF b(2) pos ratio(2)] obtain corrected where
    co: "mul_channels b ratio = Inr corrected" "is_ndarray h w c corrected"
    and co_nth: "\<forall>i<h. \<forall>j<w. \<forall>k<c. corrected ! i ! j ! k = b ! i ! j ! k * ratio ! k"
    by blast
  have acc: "apply_color_consistency b (astype_float32 cf) = Inr corrected"
    using ratio(1) co(1) by (simp add: apply_color_consistency_def and_then_def)
  have "enhanced_temporal_smooth window ci = Inr (astype_uint8 (np_clip corrected 0 255))"
    using len b(1) get acc by (simp add: enhanced_temporal_smooth_def and_then_def)
  then show ?thesis using b b_nth ratio ratio_nth acc co co_nth by blast
qed

subsection \<open>A window evaluated\<close>

lemma exp_minus_one_lower: "366 / 1000 \<le> exp (- 1 :: real)"
proof -
  have "1 + (- (1 / 100)) \<le> exp (- (1 / 100) :: real)" by (rule exp_ge_add_one_self)
  then have "(99 / 100 :: real) ^ 100 \<le> exp (- (1 / 100)) ^ 100"
    by (intro power_mono) simp_all
  also have "exp (- (1 / 100) :: real) ^ 100 = exp (of_nat 100 * (- (1 / 100)))"
    by (rule exp_of_nat_mult [symmetric])
  also have "\<dots> = exp (- 1)" by simp
  finally have "(99 / 100 :: real) ^ 100 \<le> exp (- 1)" .
  moreover have "(366 / 1000 :: real) \<le> (99 / 100) ^ 100" by (simp add: power_divide)
  ultimately show ?thesis by linarith
qed

lemma exp_minus_one_upper: "exp (- 1 :: real) \<le> 3698 / 10000"
proof -
  have "1 + 1 / 100 \<le> exp (1 / 100 :: real)" by (rule exp_ge_add_one_self)
  then have "(101 / 100 :: real) ^ 100 \<le> exp (1 / 100) ^ 100"
    by (intro power_mono) simp_all
  also have "exp (1 / 100 :: real) ^ 100 = exp (of_nat 100 * (1 / 100))"
    by (rule exp_of_nat_mult [symmetric])
  also have "\<dots> = exp 1" by simp
  finally have "(101 / 100 :: real) ^ 100 \<le> exp 1" .
  moreover have "(10000 / 3698 :: real) \<le> (101 / 100) ^ 100" by (simp add: power_divide)
  ultimately have "10000 / 3698 \<le> exp (1 :: real)" by linarith
  then have "exp (- 1 :: real) \<le> inverse (10000 / 3698)"
    unfolding exp_minus by (intro le_imp_inverse_le) simp_all
  then show ?thesis by simp
qed

lemma weights_enhanced_pair:
  "weights 1 (Suc (Suc 0)) 0 = [1 / (1 + exp (- 1)), exp (- 1) / (1 + exp (- 1))]"
  by (simp add: weights_def raw_weights_def Let_def)

lemma floor_between: "real_of_int n \<le> x \<Longrightarrow> x < real_of_int n + 1 \<Longrightarrow> \<lfloor>x\<rfloor> = n"
  by (simp add: floor_eq_iff)

lemma enhanced_example:
  "enhanced_temporal_smooth [[[[200, 100, 10]]], [[[0, 0, 0]]]] 0 = Inr [[[175, 87, 8]]]"
proof -
  define e :: real where "e = exp (- 1)"
  have lo: "366 / 1000 \<le> e" and hi: "e \<le> 3698 / 10000"
    unfolding e_def by (rule exp_minus_one_lower, rule exp_minus_one_upper)
  have pos: "0 < 1 + e" using lo by simp
  have fl: "astype_float32 [[[200, 100, 10]]] = [[[200, 100, 10]]]"
    "astype_float32 [[[0, 0, 0]]] = [[[0, 0, 0]]]"
    by (simp_all add: astype_float32_def)
  have avg: "weighted_average 1 [[[[200, 100, 10]]], [[[0, 0, 0]]]] 0 =
      Inr [[[200 / (1 + e), 100 / (1 + e), 10 / (1 + e)]]]"
    by (simp add: weighted_average_def weights_enhanced_pair e_def zeros_like_def scale_def
        iadd_def shape_def fits_def add_broadcast_def stretch_def)
  have r1: "clip1 (8 / 10) (12 / 10) (200 / (200 / (1 + e) + 1 / 10 ^ 8)) = 12 / 10"
    using lo hi pos by (simp add: clip1_def min_def max_def field_simps)
  have r2: "clip1 (8 / 10) (12 / 10) (100 / (100 / (1 + e) + 1 / 10 ^ 8)) = 12 / 10"
    using lo hi pos by (simp add: clip1_def min_def max_def field_simps)
  have r3: "clip1 (8 / 10) (12 / 10) (10 / (10 / (1 + e) + 1 / 10 ^ 8)) = 12 / 10"
    using lo hi pos by (simp add: clip1_def min_def max_def field_simps)
  have ratio: "color_ratio [[[200 / (1 + e), 100 / (1 + e), 10 / (1 + e)]]] [[[200, 100, 10]]] =
      Inr [12 / 10, 12 / 10, 12 / 10]"
    using r1 r2 r3
    by (simp add: color_ratio_def mean01_def shape_def broadcast2_def compatible_def bzip_def
        and_then_def upt_rec)
  have cc: "apply_color_consistency [[[200 / (1 + e), 100 / (1 + e), 10 / (1 + e)]]] [[[200, 100, 10]]] =
      Inr [[[240 / (1 + e), 120 / (1 + e), 12 / (1 + e)]]]"
    using pos
    by (simp add: apply_color_consistency_def ratio and_then_def mul_channels_def shape_def
        compatible_def bzip_def field_simps)
  have s1: "trunc (clip1 0 255 (240 / (1 + e))) = 175"
    unfolding trunc_clip
    by (rule floor_between) (use lo hi pos in \<open>simp_all add: clip1_def min_def max_def field_simps\<close>)
  have s2: "trunc (clip1 0 255 (120 / (1 + e))) = 87"
    unfolding trunc_clip
    by (rule floor_between) (use lo hi pos in \<open>simp_all add: clip1_def min_def max_def field_simps\<close>)
  have s3: "trunc (clip1 0 255 (12 / (1 + e))) = 8"
    unfolding trunc_clip
    by (rule floor_between) (use lo hi pos in \<open>simp_all add: clip1_def min_def max_def field_simps\<close>)
  show ?thesis
    by (simp add: enhanced_temporal_smooth_def fl avg py_get_def cc and_then_def
        astype_uint8_def np_clip_def s1 s2 s3)
qed

lemma spec_example:
  "spec_output_frame 1 [[[[200, 100, 10]]], [[[0, 0, 0]]]] 0 = Inr [[[146, 73, 7]]]"
proof -
  define e :: real where "e = exp (- 1)"
  have lo: "366 / 1000 \<le> e" and hi: "e \<le> 3698 / 10000"
    unfolding e_def by (rule exp_minus_one_lower, rule exp_minus_one_upper)
  have pos: "0 < 1 + e" using lo by simp
  have fl: "astype_float32 [[[200, 100, 10]]] = [[[200, 100, 10]]]"
    "astype_float32 [[[0, 0, 0]]] = [[[0, 0, 0]]]"
    by (simp_all add: astype_float32_def)
  have avg: "weighted_average 1 [[[[200, 100, 10]]], [[[0, 0, 0]]]] 0 =
      Inr [[[200 / (1 + e), 100 / (1 + e), 10 / (1 + e)]]]"
    by (simp add: weighted_average_def weights_enhanced_pair e_def zeros_like_def scale_def
        iadd_def shape_def fits_def add_broadcast_def stretch_def)
  have s1: "round (clip1 0 255 (200 / (1 + e))) = 146"
    unfolding round_def
    by (rule floor_between) (use lo hi pos in \<open>simp_all add: clip1_def min_def max_def field_simps\<close>)
  have s2: "round (clip1 0 255 (100 / (1 + e))) = 73"
    unfolding round_def
    by (rule floor_between) (use lo hi pos in \<open>simp_all add: clip1_def min_def max_def field_simps\<close>)
  have s3: "round (clip1 0 255 (10 / (1 + e))) = 7"
    unfolding round_def
    by (rule floor_between) (use lo hi pos in \<open>simp_all add: clip1_def min_def max_def field_simps\<close>)
  show ?thesis
    by (simp add: spec_output_frame_def fl avg and_then_def s1 s2 s3)
qed

subsection \<open>Identical frames\<close>

lemma sample_roundtrip:
  "(word_of_int (trunc (clip1 0 255 (real (unat (s :: 8 word))))) :: 8 word) = s"
proof -
  define n where "n = unat s"
  have "n < 2 ^ LENGTH(8)" unfolding n_def by (rule unsigned_less)
  then have "real n \<le> 255" by simp
  then have "clip1 0 255 (real n) = real n"
    by (simp add: clip1_def min_def max_def)
  then have "trunc (clip1 0 255 (real n)) = int n"
    by (simp add: trunc_def)
  then have "(word_of_int (trunc (clip1 0 255 (real n))) :: 8 word) = word_of_int (int n)"
    by simp
  also have "\<dots> = s" unfolding n_def by simp
  finally show ?thesis unfolding n_def .
qed

lemma weights_sum_nth: "0 < n \<Longrightarrow> (\<Sum>m<n. weights d n ci ! m) = 1"
  using weights_sum [of n d ci] sum_list_sum_nth [of "weights d n ci"]
  by (simp add: atLeast0LessThan)

lemma weighted_sum_identical:
  assumes "0 < n"
  shows "weighted_sum_at (weights d n ci) (replicate n f) i j k = real (unat (f ! i ! j ! k))"
proof -
  have "weighted_sum_at (weights d n ci) (replicate n f) i j k =
          (\<Sum>m<n. weights d n ci ! m * real (unat (f ! i ! j ! k)))"
    by (simp add: weighted_sum_at_def)
  also have "\<dots> = (\<Sum>m<n. weights d n ci ! m) * real (unat (f ! i ! j ! k))"
    by (simp add: sum_distrib_right)
  finally show ?thesis using weights_sum_nth [OF assms] by simp
qed

lemma smooth_identical_window:
  assumes f: "is_ndarray h w c f" and n: "0 < n"
  shows "vp_temporal_smooth (replicate n f) ci = Inr f"
proof (cases "n = 1")
  case True
  then show ?thesis by (simp add: vp_temporal_smooth_def)
next
  case False
  then have len: "2 \<le> length (replicate n f)" using n by simp
  have all: "\<forall>g\<in>set (replicate n f). is_ndarray h w c g" using f by simp
  from basic_smooth_output [OF len all, of ci] obtain out where
    out: "vp_temporal_smooth (replicate n f) ci = Inr out" "is_ndarray h w c out"
    and nth: "\<forall>i<h. \<forall>j<w. \<forall>k<c. out ! i ! j ! k =
        word_of_int (trunc (clip1 0 255
          (weighted_sum_at (weights (1/2) (length (replicate n f)) ci) (replicate n f) i j k)))"
    by blast
  have "out ! i ! j ! k = f ! i ! j ! k" if "i < h" "j < w" "k < c" for i j k
  proof -
    have "out ! i ! j ! k = word_of_int (trunc (clip1 0 255
          (weighted_sum_at (weights (1/2) n ci) (replicate n f) i j k)))"
      using nth that by (simp only: length_replicate)
    then show ?thesis
      by (simp only: weighted_sum_identical [OF n] sample_roundtrip)
  qed
  with out(2) f have "out = f" by (rule ndarray_eqI)
  then show ?thesis using out(1) by simp
qed

lemma window_of_identical:
  assumes "0 \<le> ws" "i < n"
  shows "\<exists>m>0. window_of (replicate n f) ws (int i) = replicate m f"
proof -
  define s where "s = start_idx (int i) ws"
  define e where "e = end_idx (int (length (replicate n f))) (int i) ws"
  have i: "i < length (replicate n f)" using assms by simp
  note r = window_of_range [OF assms(1) i, folded s_def e_def]
  have "map ((!) (replicate n f)) [nat s..<nat e] = map (\<lambda>_. f) [nat s..<nat e]"
    using r(4) by (intro map_cong) auto
  then have "window_of (replicate n f) ws (int i) = replicate (nat e - nat s) f"
    using r(5) by (simp add: map_replicate_const)
  moreover have "0 < nat e - nat s" using r(1-3) by linarith
  ultimately show ?thesis by blast
qed

lemma identical_frames_identity:
  assumes f: "is_ndarray h w c f" and ws: "0 \<le> ws"
  shows "vp_apply_temporal_consistency (replicate n f) ws = Inr (replicate n f)"
proof (cases "int n < ws")
  case True
  then show ?thesis by (simp add: vp_apply_temporal_consistency_def)
next
  case False
  have "vp_temporal_smooth (window_of (replicate n f) ws (int i)) (int i - start_idx (int i) ws) = Inr f"
    if "i \<in> set [0..<n]" for i
  proof -
    from that have "i < n" by simp
    from window_of_identical [OF ws this, where f = f] obtain m where
      m: "0 < m" and win: "window_of (replicate n f) ws (int i) = replicate m f" by auto
    show ?thesis unfolding win using f m by (rule smooth_identical_window)
  qed
  then have "for_each (\<lambda>i. vp_temporal_smooth (window_of (replicate n f) ws (int i))
                 (int i - start_idx (int i) ws)) [0..<n] = Inr (map (\<lambda>_. f) [0..<n])"
    by (rule for_each_all)
  then show ?thesis using False
    by (simp add: vp_apply_temporal_consistency_def map_replicate_const)
qed

lemma solid_ndarray: "is_ndarray h w (length px) (replicate h (replicate w px))"
  by (simp add: is_ndarray_def list_all_length)

lemma ds_apply_is_vp_apply:
  "ds_apply_temporal_consistency frames ws = vp_apply_temporal_consistency frames ws"
  by (simp add: ds_apply_temporal_consistency_def vp_apply_temporal_consistency_def
      temporal_smooth_same)




subsection \<open>The output frame\<close>


lemma sample_in_range:
  "unat (word_of_int (trunc (clip1 0 255 x)) :: 8 word) \<le> 255"
  using sample_of_clip [of x] floor_clip_range [of x] by linarith



subsection \<open>The colour correction of the enhanced mode\<close>

lemma weighted_average_nonempty: "weighted_average d fs ci = Inr r \<Longrightarrow> fs \<noteq> []"
  by (auto simp: weighted_average_def)



subsection \<open>Frames of unequal shape\<close>

lemma iadd_fits: "iadd s t = (if fits_shape (shape t) (shape s) then Inr (add_broadcast s t) else Inl ValueError)"
  by (simp add: iadd_def fits_shape_def split: prod.splits)

lemma stretch_length [simp]: "length (stretch n xs) = n"
  by (simp add: stretch_def)

lemma shape_add_broadcast: "shape (add_broadcast s t) = shape s"
proof (cases s)
  case Nil
  then show ?thesis by (simp add: add_broadcast_def shape_def)
next
  case (Cons r s')
  then have "length (stretch (length s) t) = Suc (length s')" by simp
  then obtain rt t' where t: "stretch (length s) t = rt # t'" and lt: "length t' = length s'"
    by (cases "stretch (length s) t") auto
  show ?thesis
  proof (cases r)
    case Nil
    then show ?thesis using Cons t lt by (simp add: add_broadcast_def shape_def)
  next
    case (Cons p r')
    then have "length (stretch (length r) rt) = Suc (length r')" by simp
    then obtain pt rt' where rt: "stretch (length r) rt = pt # rt'"
      and lrt: "length rt' = length r'"
      by (cases "stretch (length r) rt") auto
    show ?thesis
      using \<open>s = r # s'\<close> Cons t lt rt lrt by (simp add: add_broadcast_def shape_def)
  qed
qed

lemma shape_scale [simp]: "shape (scale x a) = shape a"
  unfolding scale_def by (rule shape_map3)

lemma shape_zeros_like [simp]: "shape (zeros_like a) = shape a"
  unfolding zeros_like_def by (rule shape_map3)

lemma shape_astype_float32 [simp]: "shape (astype_float32 a) = shape a"
  by (simp add: astype_float32_def shape_def split: list.splits)

lemma accumulate_mismatch:
  assumes "length ws = length fs" and "f \<in> set fs" and "\<not> fits_shape (shape f) (shape s)"
  shows "accumulate s (zip ws fs) = Inl ValueError"
  using assms
proof (induction fs arbitrary: ws s)
  case Nil
  then show ?case by simp
next
  case (Cons g fs)
  from Cons.prems(1) obtain x ws' where ws: "ws = x # ws'" and len: "length ws' = length fs"
    by (cases ws) auto
  show ?case
  proof (cases "fits_shape (shape g) (shape s)")
    case False
    then show ?thesis by (simp add: ws iadd_fits)
  next
    case True
    with Cons.prems(2,3) have mem: "f \<in> set fs" by auto
    have sh: "shape (add_broadcast s (scale x g)) = shape s" by (rule shape_add_broadcast)
    have "accumulate (add_broadcast s (scale x g)) (zip ws' fs) = Inl ValueError"
      using len mem Cons.prems(3) by (intro Cons.IH) (simp_all add: sh)
    then show ?thesis using True by (simp add: ws iadd_fits)
  qed
qed

lemma weighted_average_mismatch:
  assumes "f \<in> set rest" and "\<not> fits_shape (shape f) (shape f0)"
  shows "weighted_average d (map astype_float32 (f0 # rest)) ci = Inl ValueError"
proof -
  let ?fs = "map astype_float32 (f0 # rest)"
  have "astype_float32 f \<in> set ?fs" using assms(1) by simp
  moreover have "\<not> fits_shape (shape (astype_float32 f)) (shape (zeros_like (astype_float32 f0)))"
    using assms(2) by simp
  moreover have "length (weights d (length ?fs) ci) = length ?fs" by simp
  ultimately have "accumulate (zeros_like (astype_float32 f0)) (zip (weights d (length ?fs) ci) ?fs)
      = Inl ValueError"
    by (intro accumulate_mismatch)
  then show ?thesis by (simp add: weighted_average_def)
qed

lemma smooth_mismatch:
  assumes "f \<in> set rest" and "\<not> fits_shape (shape f) (shape f0)"
  shows "vp_temporal_smooth (f0 # rest) ci = Inl ValueError"
    and "ds_temporal_smooth (f0 # rest) ci = Inl ValueError"
    and "enhanced_temporal_smooth (f0 # rest) ci = Inl ValueError"
proof -
  have ne: "rest \<noteq> []" using assms(1) by auto
  note wa = weighted_average_mismatch [OF assms]
  show "vp_temporal_smooth (f0 # rest) ci = Inl ValueError"
    using ne wa [of "1/2" ci] by (simp add: vp_temporal_smooth_def and_then_def)
  show "ds_temporal_smooth (f0 # rest) ci = Inl ValueError"
    using ne wa [of "1/2" ci] by (simp add: ds_temporal_smooth_def and_then_def)
  show "enhanced_temporal_smooth (f0 # rest) ci = Inl ValueError"
    using ne wa [of 1 ci] by (simp add: enhanced_temporal_smooth_def and_then_def)
qed

lemma mismatch_returns_input:
  assumes run: "\<not> int (length frames) < window_size" and i: "i < length frames"
    and win: "window_of frames window_size (int i) = f0 # rest"
    and mem: "f \<in> set rest" and bad: "\<not> fits_shape (shape f) (shape f0)"
  shows "vp_apply_temporal_consistency frames window_size = Inr frames"
    and "ds_apply_temporal_consistency frames window_size = Inr frames"
    and "apply_enhanced_temporal_consistency frames window_size = Inr frames"
proof -
  have i': "i \<in> set [0..<length frames]" using i by simp
  note sm = smooth_mismatch [OF mem bad, folded win]
  from for_each_raises [OF i', of "\<lambda>i. vp_temporal_smooth (window_of frames window_size (int i))
      (int i - start_idx (int i) window_size)", OF sm(1)]
  show "vp_apply_temporal_consistency frames window_size = Inr frames"
    using run by (auto simp: vp_apply_temporal_consistency_def)
  from for_each_raises [OF i', of "\<lambda>i. ds_temporal_smooth (window_of frames window_size (int i))
      (int i - start_idx (int i) window_size)", OF sm(2)]
  show "ds_apply_temporal_consistency frames window_size = Inr frames"
    using run by (auto simp: ds_apply_temporal_consistency_def)
  from for_each_raises [OF i', of "\<lambda>i. enhanced_temporal_smooth (window_of frames window_size (int i))
      (int i - start_idx (int i) window_size)", OF sm(3)]
  show "apply_enhanced_temporal_consistency frames window_size = Inr frames"
    using run by (auto simp: apply_enhanced_temporal_consistency_def)
qed

text \<open>
  A frame whose shape differs but can be broadcast is not an error for numpy either: a
  1 x 1 x 3 operand is repeated along the second axis of a 1 x 2 x 3 accumulator.
\<close>

lemma broadcastable_mismatch_added:
  "iadd [[[0, 0, 0], [0, 0, 0]]] [[[1, 2, 3]]] = Inr [[[1, 2, 3], [1, 2, 3]]]"
  by (simp add: iadd_def shape_def fits_def add_broadcast_def stretch_def)

lemma mismatch_window:
  "window_of [[[[1, 2, 3]]], [[[1, 2, 3], [4, 5, 6]]], [[[1, 2, 3]]]] 3 (int 0) =
     [[[[1, 2, 3]]], [[[1, 2, 3 :: 8 word], [4, 5, 6]]]]"
  by (simp add: window_of_def start_idx_def end_idx_def py_slice_def slice_bound_def)

lemma mismatch_shapes:
  "\<not> fits_shape (shape [[[1, 2, 3 :: 8 word], [4, 5, 6]]]) (shape [[[1, 2, 3 :: 8 word]]])"
  by (simp add: fits_shape_def shape_def fits_def)


text \<open>
  Claim C7, as stated, asks for a failed call on frames of unequal shape. For the three
  frames of shapes 1 x 1 x 3, 1 x 2 x 3 and 1 x 1 x 3 with window size 3 the second frame
  cannot be broadcast into the accumulator of the first window; numpy raises ValueError,
  the \<^verbatim>\<open>except Exception\<close> clause catches it, and the call returns the input
  sequence.
\<close>

theorem shape_mismatch_not_reported:
  "vp_apply_temporal_consistency [[[[1, 2, 3]]], [[[1, 2, 3], [4, 5, 6]]], [[[1, 2, 3]]]] 3 =
     Inr [[[[1, 2, 3]]], [[[1, 2, 3], [4, 5, 6]]], [[[1, 2, 3]]]]
   \<and> apply_enhanced_temporal_consistency [[[[1, 2, 3]]], [[[1, 2, 3], [4, 5, 6]]], [[[1, 2, 3]]]] 3 =
     Inr [[[[1, 2, 3]]], [[[1, 2, 3], [4, 5, 6]]], [[[1, 2, 3]]]]"
proof -
  let ?F = "[[[[1, 2, 3]]], [[[1, 2, 3], [4, 5, 6]]], [[[1, 2, 3]]]] :: frame list"
  have run: "\<not> int (length ?F) < 3" by simp
  have i: "0 < length ?F" by simp
  have mem: "[[[1, 2, 3], [4, 5, 6]]] \<in> set [[[[1, 2, 3 :: 8 word], [4, 5, 6]]]]" by simp
  from mismatch_returns_input(1,3) [OF run i mismatch_window mem mismatch_shapes]
  show ?thesis by (rule conjI)
qed


text \<open>
  Claim C7, amended. Whenever the loop runs and some window holds, after its first
  frame, a frame whose shape cannot be broadcast to the shape of that first frame, every
  smoothing entry point returns the input sequence unchanged and reports no error to its
  caller.
\<close>

theorem shape_mismatch_swallowed:
  assumes "\<not> int (length frames) < window_size" and "i < length frames"
    and "window_of frames window_size (int i) = f0 # rest"
    and "f \<in> set rest" and "\<not> fits_shape (shape f) (shape f0)"
  shows "vp_apply_temporal_consistency frames window_size = Inr frames
    \<and> ds_apply_temporal_consistency frames window_size = Inr frames
    \<and> apply_enhanced_temporal_consistency frames window_size = Inr frames"
  using mismatch_returns_input [OF assms] by (intro conjI)

theorem shape_mismatch_swallowed_witness:
  "ds_apply_temporal_consistency [[[[1, 2, 3]]], [[[1, 2, 3], [4, 5, 6]]], [[[1, 2, 3]]]] 3 =
     Inr [[[[1, 2, 3]]], [[[1, 2, 3], [4, 5, 6]]], [[[1, 2, 3]]]]"
proof -
  let ?F = "[[[[1, 2, 3]]], [[[1, 2, 3], [4, 5, 6]]], [[[1, 2, 3]]]] :: frame list"
  have run: "\<not> int (length ?F) < 3" by simp
  have i: "0 < length ?F" by simp
  have mem: "[[[1, 2, 3], [4, 5, 6]]] \<in> set [[[[1, 2, 3 :: 8 word], [4, 5, 6]]]]" by simp
  from shape_mismatch_swallowed [OF run i mismatch_window mem mismatch_shapes]
  show ?thesis by (elim conjE)
qed

subsection \<open>The store: what the smoother does to the caller's arrays\<close>

lemma extends_refl [simp]: "extends st st"
  by (simp add: extends_def)

lemma extends_trans: "extends a b \<Longrightarrow> extends b c \<Longrightarrow> extends a c"
proof -
  assume ab: "extends a b" and bc: "extends b c"
  have "take (length a) c = take (length a) (take (length b) c)"
    using ab by (simp add: extends_def min_def)
  also have "\<dots> = a" using ab bc by (simp add: extends_def)
  finally show ?thesis using ab bc by (simp add: extends_def)
qed

lemma extends_nth: "extends st st' \<Longrightarrow> a < length st \<Longrightarrow> st' ! a = st ! a"
proof -
  assume e: "extends st st'" and a: "a < length st"
  have "st ! a = take (length st) st' ! a" using e by (simp add: extends_def)
  also have "\<dots> = st' ! a" using a by simp
  finally show ?thesis by simp
qed

lemma extends_length: "extends st st' \<Longrightarrow> length st \<le> length st'"
  by (simp add: extends_def)

lemma extends_append [simp]: "extends st (st @ xs)"
  by (simp add: extends_def)

lemma extends_alloc: "alloc st obj = (st', a) \<Longrightarrow> extends st st' \<and> a = length st"
  by (auto simp: alloc_def)

lemma extends_update: "extends st st' \<Longrightarrow> length st \<le> a \<Longrightarrow> extends st (st'[a := v])"
  by (simp add: extends_def)

lemma astype_all_extends: "astype_all st rs = (st', as) \<Longrightarrow> extends st st'"
proof (induction rs arbitrary: st st' as)
  case Nil
  then show ?case by simp
next
  case (Cons r rs)
  let ?st1 = "st @ [F32 (as_float (st ! r))]"
  from Cons.prems obtain as' where rec: "astype_all ?st1 rs = (st', as')"
    by (auto simp: alloc_def split: prod.splits)
  have "extends st ?st1" by simp
  moreover have "extends ?st1 st'" using rec by (rule Cons.IH)
  ultimately show ?case by (rule extends_trans)
qed

lemma accumulate_st_extends:
  "accumulate_st st sm l = (st', r) \<Longrightarrow> extends st0 st \<Longrightarrow> length st0 \<le> sm \<Longrightarrow> extends st0 st'"
proof (induction l arbitrary: st st' r)
  case Nil
  then show ?case by simp
next
  case (Cons a rest)
  obtain wt frame where a: "a = (wt, frame)" by (cases a)
  let ?st1 = "st @ [F32 (scale wt (as_float (st ! frame)))]"
  have e1: "extends st0 ?st1" using Cons.prems(2) extends_append by (rule extends_trans)
  show ?case
  proof (cases "iadd (as_float (?st1 ! sm)) (as_float (?st1 ! length st))")
    case (Inl e)
    then have "st' = ?st1" using Cons.prems(1) by (simp add: a alloc_def)
    then show ?thesis using e1 by simp
  next
    case (Inr v)
    then have rec: "accumulate_st (?st1[sm := F32 v]) sm rest = (st', r)"
      using Cons.prems(1) by (simp add: a alloc_def)
    have e2: "extends st0 (?st1[sm := F32 v])"
      using e1 Cons.prems(3) by (rule extends_update)
    show ?thesis using rec e2 Cons.prems(3) by (rule Cons.IH)
  qed
qed

lemma weighted_average_st_extends:
  assumes "weighted_average_st d st frs ci = (st', r)"
  shows "extends st st'"
proof (cases frs)
  case Nil
  then show ?thesis using assms by (simp add: weighted_average_st_def)
next
  case (Cons f0 rest)
  let ?st1 = "st @ [F32 (zeros_like (as_float (st ! f0)))]"
  obtain st2 r2 where acc: "accumulate_st ?st1 (length st) (zip (weights d (length frs) ci) frs) = (st2, r2)"
    by (cases "accumulate_st ?st1 (length st) (zip (weights d (length frs) ci) frs)")
  have "extends st st2" using acc by (rule accumulate_st_extends) simp_all
  moreover have "st' = st2"
    using assms acc Cons by (auto simp: weighted_average_st_def alloc_def split: sum.splits)
  ultimately show ?thesis by simp
qed

lemma clip_to_uint8_st_extends: "clip_to_uint8_st st a = (st', out) \<Longrightarrow> extends st st'"
  by (auto simp: clip_to_uint8_st_def alloc_def split: prod.splits)

lemma apply_color_consistency_st_extends:
  "apply_color_consistency_st st a b = (st', r) \<Longrightarrow> extends st st'"
  by (auto simp: apply_color_consistency_st_def alloc_def split: sum.splits)

lemma vp_temporal_smooth_st_extends:
  assumes "vp_temporal_smooth_st st window ci = (st', r)"
  shows "extends st st'"
proof (cases "length window = 1")
  case True
  then show ?thesis using assms by (simp add: vp_temporal_smooth_st_def)
next
  case False
  obtain st1 ffs where a: "astype_all st window = (st1, ffs)" by (cases "astype_all st window")
  obtain st2 r2 where b: "weighted_average_st (1/2) st1 ffs ci = (st2, r2)"
    by (cases "weighted_average_st (1/2) st1 ffs ci")
  have e2: "extends st st2"
    using astype_all_extends [OF a] weighted_average_st_extends [OF b] by (rule extends_trans)
  show ?thesis
  proof (cases r2)
    case (Inl e)
    then show ?thesis using assms False a b e2 by (simp add: vp_temporal_smooth_st_def)
  next
    case (Inr sm)
    obtain st3 out where c: "clip_to_uint8_st st2 sm = (st3, out)"
      by (cases "clip_to_uint8_st st2 sm")
    have "extends st st3" using e2 clip_to_uint8_st_extends [OF c] by (rule extends_trans)
    then show ?thesis using assms False a b c Inr by (simp add: vp_temporal_smooth_st_def)
  qed
qed

lemma enhanced_temporal_smooth_st_extends:
  assumes "enhanced_temporal_smooth_st st window ci = (st', r)"
  shows "extends st st'"
proof (cases "length window = 1")
  case True
  then show ?thesis using assms by (simp add: enhanced_temporal_smooth_st_def)
next
  case False
  obtain st1 ffs where a: "astype_all st window = (st1, ffs)" by (cases "astype_all st window")
  obtain st2 r2 where b: "weighted_average_st 1 st1 ffs ci = (st2, r2)"
    by (cases "weighted_average_st 1 st1 ffs ci")
  have e2: "extends st st2"
    using astype_all_extends [OF a] weighted_average_st_extends [OF b] by (rule extends_trans)
  show ?thesis
  proof (cases r2)
    case (Inl e)
    then show ?thesis using assms False a b e2 by (simp add: enhanced_temporal_smooth_st_def)
  next
    case sm: (Inr sm)
    show ?thesis
    proof (cases "py_get ffs ci")
      case (Inl e)
      then show ?thesis using assms False a b e2 sm by (simp add: enhanced_temporal_smooth_st_def)
    next
      case ce: (Inr ce)
      obtain st3 r3 where c: "apply_color_consistency_st st2 sm ce = (st3, r3)"
        by (cases "apply_color_consistency_st st2 sm ce")
      have e3: "extends st st3"
        using e2 apply_color_consistency_st_extends [OF c] by (rule extends_trans)
      show ?thesis
      proof (cases r3)
        case (Inl e)
        then show ?thesis
          using assms False a b c e3 sm ce by (simp add: enhanced_temporal_smooth_st_def)
      next
        case (Inr co)
        obtain st4 out where d: "clip_to_uint8_st st3 co = (st4, out)"
          by (cases "clip_to_uint8_st st3 co")
        have "extends st st4" using e3 clip_to_uint8_st_extends [OF d] by (rule extends_trans)
        then show ?thesis
          using assms False a b c d sm ce Inr by (simp add: enhanced_temporal_smooth_st_def)
      qed
    qed
  qed
qed

lemma for_each_st_extends:
  assumes step: "\<And>st x st' r. f st x = (st', r) \<Longrightarrow> extends st st'"
  shows "for_each_st f st xs = (st', r) \<Longrightarrow> extends st st'"
proof (induction xs arbitrary: st st' r)
  case Nil
  then show ?case by simp
next
  case (Cons x xs)
  obtain st1 r1 where a: "f st x = (st1, r1)" by (cases "f st x")
  have e1: "extends st st1" using a by (rule step)
  show ?case
  proof (cases r1)
    case (Inl e)
    then show ?thesis using Cons.prems a e1 by simp
  next
    case (Inr y)
    obtain st2 r2 where b: "for_each_st f st1 xs = (st2, r2)" by (cases "for_each_st f st1 xs")
    have "extends st st2" using e1 Cons.IH [OF b] by (rule extends_trans)
    moreover have "st' = st2" using Cons.prems a b Inr by (auto split: sum.splits)
    ultimately show ?thesis by simp
  qed
qed

lemma for_each_st_length:
  "for_each_st f st xs = (st', Inr ys) \<Longrightarrow> length ys = length xs"
  by (induction xs arbitrary: st ys) (auto split: prod.splits sum.splits)

lemma apply_st_extends:
  shows "vp_apply_temporal_consistency_st st frames ws = (st', r) \<Longrightarrow> extends st st'"
    and "apply_enhanced_temporal_consistency_st st frames ws = (st', r) \<Longrightarrow> extends st st'"
proof -
  assume a: "vp_apply_temporal_consistency_st st frames ws = (st', r)"
  show "extends st st'"
  proof (cases "int (length frames) < ws")
    case True
    then show ?thesis using a by (simp add: vp_apply_temporal_consistency_st_def)
  next
    case False
    let ?f = "\<lambda>st i. vp_temporal_smooth_st st (window_of frames ws (int i))
                           (int i - start_idx (int i) ws)"
    obtain st1 r1 where b: "for_each_st ?f st [0..<length frames] = (st1, r1)"
      by (cases "for_each_st ?f st [0..<length frames]")
    have "extends st st1"
      using b by (rule for_each_st_extends [rotated]) (rule vp_temporal_smooth_st_extends)
    moreover have "st' = st1"
      using a b False by (auto simp: vp_apply_temporal_consistency_st_def split: sum.splits)
    ultimately show ?thesis by simp
  qed
next
  assume a: "apply_enhanced_temporal_consistency_st st frames ws = (st', r)"
  show "extends st st'"
  proof (cases "int (length frames) < ws")
    case True
    then show ?thesis using a by (simp add: apply_enhanced_temporal_consistency_st_def)
  next
    case False
    let ?f = "\<lambda>st i. enhanced_temporal_smooth_st st (window_of frames ws (int i))
                           (int i - start_idx (int i) ws)"
    obtain st1 r1 where b: "for_each_st ?f st [0..<length frames] = (st1, r1)"
      by (cases "for_each_st ?f st [0..<length frames]")
    have "extends st st1"
      using b by (rule for_each_st_extends [rotated]) (rule enhanced_temporal_smooth_st_extends)
    moreover have "st' = st1"
      using a b False by (auto simp: apply_enhanced_temporal_consistency_st_def split: sum.splits)
    ultimately show ?thesis by simp
  qed
qed

lemma apply_st_length:
  shows "vp_apply_temporal_consistency_st st frames ws = (st', r) \<Longrightarrow>
           \<exists>out. r = Inr out \<and> length out = length frames"
    and "apply_enhanced_temporal_consistency_st st frames ws = (st', r) \<Longrightarrow>
           \<exists>out. r = Inr out \<and> length out = length frames"
  by (auto simp: vp_apply_temporal_consistency_st_def apply_enhanced_temporal_consistency_st_def
      split: if_splits prod.splits sum.splits dest: for_each_st_length)

lemma frames_at_Some:
  "frames_at st refs = Some fs \<longleftrightarrow> (\<forall>r\<in>set refs. r < length st) \<and> map ((!) st) refs = map U8 fs"
proof
  assume a: "frames_at st refs = Some fs"
  then have all: "\<forall>r\<in>set refs. r < length st \<and> (case st ! r of U8 _ \<Rightarrow> True | F32 _ \<Rightarrow> False)"
    and fs: "fs = map (\<lambda>r. case st ! r of U8 a \<Rightarrow> a | F32 a \<Rightarrow> astype_uint8 a) refs"
    by (auto simp: frames_at_def list_all_iff split: if_splits)
  have "st ! r = U8 (case st ! r of U8 a \<Rightarrow> a | F32 a \<Rightarrow> astype_uint8 a)" if "r \<in> set refs" for r
    using all that by (cases "st ! r") auto
  then show "(\<forall>r\<in>set refs. r < length st) \<and> map ((!) st) refs = map U8 fs"
    using all by (simp add: fs)
next
  assume b: "(\<forall>r\<in>set refs. r < length st) \<and> map ((!) st) refs = map U8 fs"
  then have len: "length refs = length fs" by (metis length_map)
  have nth: "st ! (refs ! k) = U8 (fs ! k)" if "k < length refs" for k
  proof -
    have "map ((!) st) refs ! k = map U8 fs ! k" using b by simp
    then show ?thesis using that len by simp
  qed
  have all: "list_all (\<lambda>r. r < length st \<and> (case st ! r of U8 _ \<Rightarrow> True | F32 _ \<Rightarrow> False)) refs"
    using b nth by (auto simp: list_all_length)
  have "map (\<lambda>r. case st ! r of U8 a \<Rightarrow> a | F32 a \<Rightarrow> astype_uint8 a) refs = fs"
    using len nth by (intro nth_equalityI) auto
  then show "frames_at st refs = Some fs" using all by (simp add: frames_at_def)
qed

lemma as_float_simps [simp]: "as_float (F32 a) = a" "as_float (U8 b) = astype_float32 b"
  by (simp_all add: as_float_def)

lemma astype_all_eval:
  "\<forall>r\<in>set refs. r < length st \<Longrightarrow>
     astype_all st refs =
       (st @ map (\<lambda>r. F32 (as_float (st ! r))) refs, [length st..<length st + length refs])"
proof (induction refs arbitrary: st)
  case Nil
  then show ?case by simp
next
  case (Cons r rs)
  let ?st1 = "st @ [F32 (as_float (st ! r))]"
  have valid: "\<forall>q\<in>set rs. q < length ?st1" using Cons.prems by auto
  have same: "map (\<lambda>q. F32 (as_float (?st1 ! q))) rs = map (\<lambda>q. F32 (as_float (st ! q))) rs"
    using Cons.prems by (intro map_cong) (auto simp: nth_append)
  have "[length st..<length st + length (r # rs)] =
          length st # [length ?st1..<length ?st1 + length rs]"
    by (subst upt_rec) simp
  then show ?case
    using Cons.IH [OF valid] same by (simp add: alloc_def)
qed

lemma accumulate_st_refines:
  assumes "sm < length st" and "\<forall>r\<in>set frs. r < length st \<and> r \<noteq> sm"
  shows "case accumulate (as_float (st ! sm)) (zip ws (map (\<lambda>r. as_float (st ! r)) frs)) of
           Inl e \<Rightarrow> \<exists>st'. accumulate_st st sm (zip ws frs) = (st', Inl e)
         | Inr v \<Rightarrow> \<exists>st'. accumulate_st st sm (zip ws frs) = (st', Inr ())
                       \<and> sm < length st' \<and> as_float (st' ! sm) = v"
  using assms
proof (induction frs arbitrary: ws st)
  case Nil
  then show ?case by simp
next
  case (Cons fr frs)
  show ?case
  proof (cases ws)
    case Nil
    then show ?thesis using Cons.prems by simp
  next
    case ws: (Cons x ws')
    let ?t = "scale x (as_float (st ! fr))"
    let ?st1 = "st @ [F32 ?t]"
    have sm1: "as_float (?st1 ! sm) = as_float (st ! sm)"
      using Cons.prems(1) by (simp add: nth_append)
    have tmp: "as_float (?st1 ! length st) = ?t" by simp
    show ?thesis
    proof (cases "iadd (as_float (st ! sm)) ?t")
      case (Inl e)
      then show ?thesis by (simp add: ws alloc_def sm1 tmp)
    next
      case (Inr v)
      let ?st2 = "?st1[sm := F32 v]"
      have sm2: "sm < length ?st2" using Cons.prems(1) by simp
      have valid: "\<forall>r\<in>set frs. r < length ?st2 \<and> r \<noteq> sm" using Cons.prems(2) by auto
      have v: "as_float (?st2 ! sm) = v" using Cons.prems(1) by simp
      have same: "map (\<lambda>r. as_float (?st2 ! r)) frs = map (\<lambda>r. as_float (st ! r)) frs"
        using Cons.prems(2) by (intro map_cong) (auto simp: nth_append)
      have step: "accumulate_st st sm (zip ws (fr # frs)) = accumulate_st ?st2 sm (zip ws' frs)"
        by (simp add: ws alloc_def sm1 tmp Inr)
      from Cons.IH [OF sm2 valid, of ws'] show ?thesis
        unfolding step by (simp add: ws Inr v same)
    qed
  qed
qed

lemma weighted_average_st_refines:
  assumes valid: "\<forall>r\<in>set frs. r < length st"
  shows "case weighted_average d (map (\<lambda>r. as_float (st ! r)) frs) ci of
           Inl e \<Rightarrow> \<exists>st'. weighted_average_st d st frs ci = (st', Inl e)
         | Inr v \<Rightarrow> \<exists>st' a. weighted_average_st d st frs ci = (st', Inr a)
                       \<and> a < length st' \<and> as_float (st' ! a) = v"
proof (cases frs)
  case Nil
  then show ?thesis by (simp add: weighted_average_def weighted_average_st_def)
next
  case (Cons f0 rest)
  let ?z = "zeros_like (as_float (st ! f0))"
  let ?st1 = "st @ [F32 ?z]"
  let ?ws = "weights d (length frs) ci"
  have sm: "length st < length ?st1" by simp
  have v1: "\<forall>r\<in>set frs. r < length ?st1 \<and> r \<noteq> length st" using valid by auto
  have z: "as_float (?st1 ! length st) = ?z" by simp
  have same: "map (\<lambda>r. as_float (?st1 ! r)) frs = map (\<lambda>r. as_float (st ! r)) frs"
    using valid by (intro map_cong) (auto simp: nth_append)
  note acc = accumulate_st_refines [OF sm v1, of ?ws, unfolded z same]
  have pure: "weighted_average d (map (\<lambda>r. as_float (st ! r)) frs) ci =
      accumulate ?z (zip ?ws (map (\<lambda>r. as_float (st ! r)) frs))"
    by (simp add: weighted_average_def Cons)
  show ?thesis
  proof (cases "accumulate ?z (zip ?ws (map (\<lambda>r. as_float (st ! r)) frs))")
    case (Inl e)
    with acc obtain st' where "accumulate_st ?st1 (length st) (zip ?ws frs) = (st', Inl e)"
      by auto
    then show ?thesis
      unfolding pure Inl by (simp add: weighted_average_st_def Cons alloc_def)
  next
    case (Inr v)
    with acc obtain st' where "accumulate_st ?st1 (length st) (zip ?ws frs) = (st', Inr ())"
      "length st < length st'" "as_float (st' ! length st) = v"
      by auto
    then show ?thesis
      unfolding pure Inr by (simp add: weighted_average_st_def Cons alloc_def)
  qed
qed

lemma clip_to_uint8_st_eval:
  "a < length st \<Longrightarrow>
     clip_to_uint8_st st a =
       (st @ [F32 (np_clip (as_float (st ! a)) 0 255),
              U8 (astype_uint8 (np_clip (as_float (st ! a)) 0 255))], Suc (length st))"
  by (simp add: clip_to_uint8_st_def alloc_def nth_append)

lemma float_refs_contents:
  assumes "frames_at st window = Some fs"
  defines "st1 \<equiv> st @ map (\<lambda>r. F32 (as_float (st ! r))) window"
  shows "map (\<lambda>r. as_float (st1 ! r)) [length st..<length st + length window] =
           map astype_float32 fs"
    and "\<forall>r\<in>set [length st..<length st + length window]. r < length st1"
proof -
  from assms(1) have valid: "\<forall>r\<in>set window. r < length st"
    and eq: "map ((!) st) window = map U8 fs"
    by (simp_all add: frames_at_Some)
  have len: "length window = length fs" using eq by (metis length_map)
  have nth: "st ! (window ! k) = U8 (fs ! k)" if "k < length window" for k
  proof -
    have "map ((!) st) window ! k = map U8 fs ! k" using eq by simp
    then show ?thesis using that len by simp
  qed
  show "map (\<lambda>r. as_float (st1 ! r)) [length st..<length st + length window] =
           map astype_float32 fs"
    using len nth by (intro nth_equalityI) (simp_all add: st1_def nth_append)
  show "\<forall>r\<in>set [length st..<length st + length window]. r < length st1"
    by (simp add: st1_def)
qed

lemma vp_temporal_smooth_st_refines:
  assumes fa: "frames_at st window = Some fs"
  shows "case vp_temporal_smooth fs ci of
           Inl e \<Rightarrow> \<exists>st'. vp_temporal_smooth_st st window ci = (st', Inl e)
         | Inr v \<Rightarrow> \<exists>st' a. vp_temporal_smooth_st st window ci = (st', Inr a)
                       \<and> a < length st' \<and> st' ! a = U8 v"
proof -
  from fa have valid: "\<forall>r\<in>set window. r < length st"
    and eq: "map ((!) st) window = map U8 fs"
    by (simp_all add: frames_at_Some)
  have len: "length window = length fs" using eq by (metis length_map)
  show ?thesis
  proof (cases "length window = 1")
    case True
    then have "map ((!) st) window ! 0 = map U8 fs ! 0" using eq by simp
    then have "st ! (window ! 0) = U8 (fs ! 0)" using True len by simp
    moreover have "window ! 0 < length st" using valid True by (cases window) auto
    ultimately show ?thesis
      using True len by (simp add: vp_temporal_smooth_def vp_temporal_smooth_st_def)
  next
    case False
    let ?st1 = "st @ map (\<lambda>r. F32 (as_float (st ! r))) window"
    let ?frs = "[length st..<length st + length window]"
    note fr = float_refs_contents [OF fa]
    have aa: "astype_all st window = (?st1, ?frs)" using valid by (rule astype_all_eval)
    note wa = weighted_average_st_refines [OF fr(2), of "1/2" ci, unfolded fr(1)]
    have pure: "vp_temporal_smooth fs ci =
        (case weighted_average (1/2) (map astype_float32 fs) ci of
           Inl e \<Rightarrow> Inl e | Inr s \<Rightarrow> Inr (astype_uint8 (np_clip s 0 255)))"
      using False len by (simp add: vp_temporal_smooth_def and_then_def)
    show ?thesis
    proof (cases "weighted_average (1/2) (map astype_float32 fs) ci")
      case (Inl e)
      with wa obtain st2 where "weighted_average_st (1/2) ?st1 ?frs ci = (st2, Inl e)" by auto
      then show ?thesis
        unfolding pure Inl using False by (simp add: vp_temporal_smooth_st_def aa)
    next
      case (Inr s)
      with wa obtain st2 a where w: "weighted_average_st (1/2) ?st1 ?frs ci = (st2, Inr a)"
        and a: "a < length st2" "as_float (st2 ! a) = s"
        by auto
      show ?thesis
        unfolding pure Inr using False a
        by (simp add: vp_temporal_smooth_st_def aa w clip_to_uint8_st_eval nth_append)
    qed
  qed
qed

lemma for_each_st_refines:
  assumes step: "\<And>st1 x. extends st st1 \<Longrightarrow> x \<in> set xs \<Longrightarrow>
      (case g x of
         Inl e \<Rightarrow> \<exists>st'. f st1 x = (st', Inl e)
       | Inr v \<Rightarrow> \<exists>st' a. f st1 x = (st', Inr a) \<and> a < length st' \<and> st' ! a = U8 v)"
    and ext: "\<And>st1 x st' r. f st1 x = (st', r) \<Longrightarrow> extends st1 st'"
  shows "case for_each g xs of
           Inl e \<Rightarrow> \<exists>st'. for_each_st f st xs = (st', Inl e)
         | Inr vs \<Rightarrow> \<exists>st' as. for_each_st f st xs = (st', Inr as) \<and> frames_at st' as = Some vs"
  using step
proof (induction xs arbitrary: st)
  case Nil
  show ?case by (simp add: frames_at_def)
next
  case (Cons x xs)
  note head = Cons.prems [OF extends_refl, of x, simplified]
  show ?case
  proof (cases "g x")
    case (Inl e)
    with head obtain st1 where "f st x = (st1, Inl e)" by auto
    then show ?thesis using Inl by simp
  next
    case gx: (Inr v)
    with head obtain st1 a where f1: "f st x = (st1, Inr a)"
      and a: "a < length st1" "st1 ! a = U8 v"
      by auto
    have e1: "extends st st1" using f1 by (rule ext)
    have tail: "case for_each g xs of
           Inl e \<Rightarrow> \<exists>st'. for_each_st f st1 xs = (st', Inl e)
         | Inr vs \<Rightarrow> \<exists>st' as. for_each_st f st1 xs = (st', Inr as) \<and> frames_at st' as = Some vs"
    proof (rule Cons.IH)
      fix st2 y assume "extends st1 st2" "y \<in> set xs"
      then show "case g y of
         Inl e \<Rightarrow> \<exists>st'. f st2 y = (st', Inl e)
       | Inr v \<Rightarrow> \<exists>st' a. f st2 y = (st', Inr a) \<and> a < length st' \<and> st' ! a = U8 v"
        using Cons.prems [of st2 y] e1 by (auto intro: extends_trans)
    qed
    show ?thesis
    proof (cases "for_each g xs")
      case (Inl e)
      with tail obtain st2 where "for_each_st f st1 xs = (st2, Inl e)" by auto
      then show ?thesis using gx Inl f1 by simp
    next
      case (Inr vs)
      with tail obtain st2 as where f2: "for_each_st f st1 xs = (st2, Inr as)"
        and fa: "frames_at st2 as = Some vs"
        by auto
      have e2: "extends st1 st2" using f2 by (rule for_each_st_extends [rotated]) (rule ext)
      have "st2 ! a = U8 v" "a < length st2"
        using extends_nth [OF e2 a(1)] a extends_length [OF e2] by simp_all
      then have "frames_at st2 (a # as) = Some (v # vs)"
        using fa by (simp add: frames_at_Some)
      then show ?thesis using gx Inr f1 f2 by simp
    qed
  qed
qed

lemma py_get_map_Inl: "py_get xs i = Inl e \<Longrightarrow> py_get (map f xs) i = Inl e"
  by (auto simp: py_get_def split: if_splits)

lemma apply_color_consistency_st_eval:
  "apply_color_consistency_st st a b =
     (case apply_color_consistency (as_float (st ! a)) (as_float (st ! b)) of
        Inl e \<Rightarrow> (st, Inl e)
      | Inr v \<Rightarrow> (st @ [F32 v], Inr (length st)))"
  by (simp add: apply_color_consistency_st_def alloc_def split: sum.splits)

lemma enhanced_temporal_smooth_st_refines:
  assumes fa: "frames_at st window = Some fs"
  shows "case enhanced_temporal_smooth fs ci of
           Inl e \<Rightarrow> \<exists>st'. enhanced_temporal_smooth_st st window ci = (st', Inl e)
         | Inr v \<Rightarrow> \<exists>st' a. enhanced_temporal_smooth_st st window ci = (st', Inr a)
                       \<and> a < length st' \<and> st' ! a = U8 v"
proof -
  from fa have valid: "\<forall>r\<in>set window. r < length st"
    and eq: "map ((!) st) window = map U8 fs"
    by (simp_all add: frames_at_Some)
  have len: "length window = length fs" using eq by (metis length_map)
  show ?thesis
  proof (cases "length window = 1")
    case True
    then have "map ((!) st) window ! 0 = map U8 fs ! 0" using eq by simp
    then have "st ! (window ! 0) = U8 (fs ! 0)" using True len by simp
    moreover have "window ! 0 < length st" using valid True by (cases window) auto
    ultimately show ?thesis
      using True len by (simp add: enhanced_temporal_smooth_def enhanced_temporal_smooth_st_def)
  next
    case False
    let ?st1 = "st @ map (\<lambda>r. F32 (as_float (st ! r))) window"
    let ?frs = "[length st..<length st + length window]"
    let ?ffs = "map astype_float32 fs"
    note fr = float_refs_contents [OF fa]
    have aa: "astype_all st window = (?st1, ?frs)" using valid by (rule astype_all_eval)
    note wa = weighted_average_st_refines [OF fr(2), of 1 ci, unfolded fr(1)]
    have pure: "enhanced_temporal_smooth fs ci =
        (case weighted_average 1 ?ffs ci of
           Inl e \<Rightarrow> Inl e
         | Inr s \<Rightarrow> (case py_get ?ffs ci of
             Inl e \<Rightarrow> Inl e
           | Inr c \<Rightarrow> (case apply_color_consistency s c of
               Inl e \<Rightarrow> Inl e
             | Inr s' \<Rightarrow> Inr (astype_uint8 (np_clip s' 0 255)))))"
      using False len by (simp add: enhanced_temporal_smooth_def and_then_def Let_def)
    show ?thesis
    proof (cases "weighted_average 1 ?ffs ci")
      case (Inl e)
      with wa obtain st2 where "weighted_average_st 1 ?st1 ?frs ci = (st2, Inl e)" by auto
      then show ?thesis
        unfolding pure Inl using False by (simp add: enhanced_temporal_smooth_st_def aa)
    next
      case s: (Inr s)
      with wa obtain st2 a where w: "weighted_average_st 1 ?st1 ?frs ci = (st2, Inr a)"
        and a: "a < length st2" "as_float (st2 ! a) = s"
        by auto
      have e12: "extends ?st1 st2" using w by (rule weighted_average_st_extends)
      show ?thesis
      proof (cases "py_get ?frs ci")
        case (Inl e)
        then have "py_get (map (\<lambda>r. as_float (?st1 ! r)) ?frs) ci = Inl e"
          by (rule py_get_map_Inl)
        then have "py_get ?ffs ci = Inl e" by (simp only: fr(1))
        then show ?thesis
          unfolding pure s using False Inl
          by (simp add: enhanced_temporal_smooth_st_def aa w)
      next
        case ce: (Inr ce)
        then have "py_get (map (\<lambda>r. as_float (?st1 ! r)) ?frs) ci = Inr (as_float (?st1 ! ce))"
          by (rule py_get_map)
        then have pc: "py_get ?ffs ci = Inr (as_float (?st1 ! ce))" by (simp only: fr(1))
        have "ce < length ?st1" using py_get_mem [OF ce] fr(2) by blast
        then have c2: "as_float (st2 ! ce) = as_float (?st1 ! ce)"
          using extends_nth [OF e12] by simp
        show ?thesis
        proof (cases "apply_color_consistency s (as_float (?st1 ! ce))")
          case (Inl e)
          then show ?thesis
            unfolding pure s using False
            by (simp add: enhanced_temporal_smooth_st_def aa w ce pc Let_def
                apply_color_consistency_st_eval a c2)
        next
          case (Inr co)
          then show ?thesis
            unfolding pure s using False
            by (simp add: enhanced_temporal_smooth_st_def aa w ce pc Let_def
                apply_color_consistency_st_eval a c2 clip_to_uint8_st_eval nth_append)
        qed
      qed
    qed
  qed
qed

lemma window_of_map: "window_of (map f xs) ws i = map f (window_of xs ws i)"
  by (simp add: window_of_def py_slice_def Let_def take_map drop_map)

lemma set_window_of: "set (window_of xs ws i) \<subseteq> set xs"
proof -
  have "set (take n (drop m xs)) \<subseteq> set xs" for n m
    using set_take_subset [of n "drop m xs"] set_drop_subset [of m xs] by blast
  then show ?thesis by (simp add: window_of_def py_slice_def Let_def)
qed

lemma frames_at_extends:
  assumes "frames_at st refs = Some fs" and e: "extends st st1"
  shows "frames_at st1 refs = Some fs"
proof -
  from assms(1) have valid: "\<forall>r\<in>set refs. r < length st"
    and eq: "map ((!) st) refs = map U8 fs"
    by (simp_all add: frames_at_Some)
  have "map ((!) st1) refs = map ((!) st) refs"
    using valid extends_nth [OF e] by (intro map_cong) auto
  moreover have "\<forall>r\<in>set refs. r < length st1"
    using valid extends_length [OF e] by auto
  ultimately show ?thesis using eq by (simp add: frames_at_Some)
qed

lemma frames_at_window:
  assumes "frames_at st refs = Some fs"
  shows "frames_at st (window_of refs ws i) = Some (window_of fs ws i)"
proof -
  from assms have valid: "\<forall>r\<in>set refs. r < length st"
    and eq: "map ((!) st) refs = map U8 fs"
    by (simp_all add: frames_at_Some)
  have len: "length refs = length fs" using eq by (metis length_map)
  have "map ((!) st) (window_of refs ws i) = window_of (map ((!) st) refs) ws i"
    by (simp add: window_of_map)
  also have "\<dots> = map U8 (window_of fs ws i)" by (simp add: eq window_of_map)
  finally have "map ((!) st) (window_of refs ws i) = map U8 (window_of fs ws i)" .
  moreover have "\<forall>r\<in>set (window_of refs ws i). r < length st"
    using valid set_window_of [of refs ws i] by blast
  ultimately show ?thesis by (simp add: frames_at_Some)
qed

lemma frames_at_length: "frames_at st refs = Some fs \<Longrightarrow> length refs = length fs"
  by (metis frames_at_Some length_map)

lemma vp_apply_st_refines:
  assumes fa: "frames_at st frames = Some fs"
    and run: "vp_apply_temporal_consistency_st st frames ws = (st', r)"
  shows "\<exists>out ofs. r = Inr out \<and> vp_apply_temporal_consistency fs ws = Inr ofs
           \<and> frames_at st' out = Some ofs"
proof -
  have len: "length frames = length fs" using fa by (rule frames_at_length)
  have e: "extends st st'" using run by (rule apply_st_extends(1))
  have fa': "frames_at st' frames = Some fs" using fa e by (rule frames_at_extends)
  show ?thesis
  proof (cases "int (length frames) < ws")
    case True
    then show ?thesis
      using run fa len
      by (auto simp: vp_apply_temporal_consistency_st_def vp_apply_temporal_consistency_def)
  next
    case False
    let ?f = "\<lambda>st i. vp_temporal_smooth_st st (window_of frames ws (int i))
                           (int i - start_idx (int i) ws)"
    let ?g = "\<lambda>i. vp_temporal_smooth (window_of fs ws (int i)) (int i - start_idx (int i) ws)"
    have loop: "case for_each ?g [0..<length frames] of
           Inl e \<Rightarrow> \<exists>st'. for_each_st ?f st [0..<length frames] = (st', Inl e)
         | Inr vs \<Rightarrow> \<exists>st' as. for_each_st ?f st [0..<length frames] = (st', Inr as)
                        \<and> frames_at st' as = Some vs"
    proof (rule for_each_st_refines)
      fix st1 x assume "extends st st1"
      then have "frames_at st1 frames = Some fs" using fa by (rule frames_at_extends [rotated])
      then have "frames_at st1 (window_of frames ws (int x)) = Some (window_of fs ws (int x))"
        by (rule frames_at_window)
      then show "case ?g x of
          Inl e \<Rightarrow> \<exists>st'. ?f st1 x = (st', Inl e)
        | Inr v \<Rightarrow> \<exists>st' a. ?f st1 x = (st', Inr a) \<and> a < length st' \<and> st' ! a = U8 v"
        by (rule vp_temporal_smooth_st_refines)
    next
      fix st1 x st' r assume "?f st1 x = (st', r)"
      then show "extends st1 st'" by (rule vp_temporal_smooth_st_extends)
    qed
    show ?thesis
    proof (cases "for_each ?g [0..<length frames]")
      case (Inl e)
      with loop obtain st1 where "for_each_st ?f st [0..<length frames] = (st1, Inl e)" by auto
      then have "r = Inr frames"
        using run False by (simp add: vp_apply_temporal_consistency_st_def)
      moreover have "vp_apply_temporal_consistency fs ws = Inr fs"
        using Inl False len by (simp add: vp_apply_temporal_consistency_def)
      ultimately show ?thesis using fa' by blast
    next
      case (Inr vs)
      with loop obtain st1 as where l: "for_each_st ?f st [0..<length frames] = (st1, Inr as)"
        and fas: "frames_at st1 as = Some vs"
        by auto
      have "r = Inr as" "st' = st1"
        using run False l by (simp_all add: vp_apply_temporal_consistency_st_def)
      moreover have "vp_apply_temporal_consistency fs ws = Inr vs"
        using Inr False len by (simp add: vp_apply_temporal_consistency_def)
      ultimately show ?thesis using fas by blast
    qed
  qed
qed

lemma enhanced_apply_st_refines:
  assumes fa: "frames_at st frames = Some fs"
    and run: "apply_enhanced_temporal_consistency_st st frames ws = (st', r)"
  shows "\<exists>out ofs. r = Inr out \<and> apply_enhanced_temporal_consistency fs ws = Inr ofs
           \<and> frames_at st' out = Some ofs"
proof -
  have len: "length frames = length fs" using fa by (rule frames_at_length)
  have e: "extends st st'" using run by (rule apply_st_extends(2))
  have fa': "frames_at st' frames = Some fs" using fa e by (rule frames_at_extends)
  show ?thesis
  proof (cases "int (length frames) < ws")
    case True
    then show ?thesis
      using run fa len
      by (auto simp: apply_enhanced_temporal_consistency_st_def
          apply_enhanced_temporal_consistency_def)
  next
    case False
    let ?f = "\<lambda>st i. enhanced_temporal_smooth_st st (window_of frames ws (int i))
                           (int i - start_idx (int i) ws)"
    let ?g = "\<lambda>i. enhanced_temporal_smooth (window_of fs ws (int i)) (int i - start_idx (int i) ws)"
    have loop: "case for_each ?g [0..<length frames] of
           Inl e \<Rightarrow> \<exists>st'. for_each_st ?f st [0..<length frames] = (st', Inl e)
         | Inr vs \<Rightarrow> \<exists>st' as. for_each_st ?f st [0..<length frames] = (st', Inr as)
                        \<and> frames_at st' as = Some vs"
    proof (rule for_each_st_refines)
      fix st1 x assume "extends st st1"
      then have "frames_at st1 frames = Some fs" using fa by (rule frames_at_extends [rotated])
      then have "frames_at st1 (window_of frames ws (int x)) = Some (window_of fs ws (int x))"
        by (rule frames_at_window)
      then show "case ?g x of
          Inl e \<Rightarrow> \<exists>st'. ?f st1 x = (st', Inl e)
        | Inr v \<Rightarrow> \<exists>st' a. ?f st1 x = (st', Inr a) \<and> a < length st' \<and> st' ! a = U8 v"
        by (rule enhanced_temporal_smooth_st_refines)
    next
      fix st1 x st' r assume "?f st1 x = (st', r)"
      then show "extends st1 st'" by (rule enhanced_temporal_smooth_st_extends)
    qed
    show ?thesis
    proof (cases "for_each ?g [0..<length frames]")
      case (Inl e)
      with loop obtain st1 where "for_each_st ?f st [0..<length frames] = (st1, Inl e)" by auto
      then have "r = Inr frames"
        using run False by (simp add: apply_enhanced_temporal_consistency_st_def)
      moreover have "apply_enhanced_temporal_consistency fs ws = Inr fs"
        using Inl False len by (simp add: apply_enhanced_temporal_consistency_def)
      ultimately show ?thesis using fa' by blast
    next
      case (Inr vs)
      with loop obtain st1 as where l: "for_each_st ?f st [0..<length frames] = (st1, Inr as)"
        and fas: "frames_at st1 as = Some vs"
        by auto
      have "r = Inr as" "st' = st1"
        using run False l by (simp_all add: apply_enhanced_temporal_consistency_st_def)
      moreover have "apply_enhanced_temporal_consistency fs ws = Inr vs"
        using Inr False len by (simp add: apply_enhanced_temporal_consistency_def)
      ultimately show ?thesis using fas by blast
    qed
  qed
qed

lemma pass_through_returns_same_references:
  "int (length frames) < window_size \<Longrightarrow>
     vp_apply_temporal_consistency_st st frames window_size = (st, Inr frames)"
  by (simp add: vp_apply_temporal_consistency_st_def)



end
